theory Spec2Isabelle
  imports Main "HOL-Library.AList" "HOL-Library.Sublist"
begin

section \<open>The syntax tree\<close>

text \<open>
  \<^verbatim>\<open>src/index.ts\<close> works on the tree that the TypeScript parser
  (\<^verbatim>\<open>ts.createSourceFile\<close>) returns. The parser is an external library, so the
  model starts from the parsed tree. A node kind that the source tests for
  (\<^verbatim>\<open>ts.isVariableDeclaration\<close>, \<^verbatim>\<open>ts.isCallExpression\<close>, ...) is a constructor
  with the fields the source reads; every other kind is \<open>OtherNode\<close> with its
  children in source order. Optional punctuation tokens of a node (they have no
  children and are of none of the kinds the source tests for) are left out.

  \<^item> \<open>OtherLiteral\<close>: the literal tokens other than string and no-substitution
    template literals (numeric, big integer, regular expression, JSX text), for
    which \<^verbatim>\<open>ts.isLiteralExpression\<close> holds too;
  \<^item> \<open>MethodDeclaration\<close>: a method or accessor of an object literal
    (its name, then its other children);
  \<^item> \<open>VariableDeclaration name type initializer\<close>;
  \<^item> \<open>CallExpression expression typeArguments arguments\<close>;
  \<^item> \<open>JsxOpeningElement tagName typeArguments attributes\<close> (the same for
    \<open>JsxSelfClosingElement\<close>), where the third field is the list
    \<^verbatim>\<open>element.attributes.properties\<close>; the \<^verbatim>\<open>JsxAttributes\<close> node that holds
    the list is a child of the element, see \<open>children\<close> below;
  \<^item> \<open>JsxAttribute name initializer\<close>, where the first field is
    \<^verbatim>\<open>attr.name.text\<close> (the source's type of \<^verbatim>\<open>attr.name\<close> is an identifier).
\<close>

datatype node =
    Identifier string
  | StringLiteral string
  | NoSubstitutionTemplateLiteral string
  | OtherLiteral string
  | ObjectLiteralExpression "node list"
  | PropertyAssignment node node
  | ShorthandPropertyAssignment node "node option"
  | SpreadAssignment node
  | MethodDeclaration node "node list"
  | VariableDeclaration node "node option" "node option"
  | CallExpression node "node list" "node list"
  | JsxOpeningElement node "node list" "node list"
  | JsxSelfClosingElement node "node list" "node list"
  | JsxAttributes "node list"
  | JsxAttribute string "node option"
  | JsxSpreadAttribute node
  | JsxExpression "node option"
  | OtherNode "node list"

fun optChild :: "node option \<Rightarrow> node list" where
  "optChild None = []"
| "optChild (Some n) = [n]"

text \<open>The children of a node, in the order \<^verbatim>\<open>ts.forEachChild\<close> visits them.\<close>

fun children :: "node \<Rightarrow> node list" where
  "children (Identifier t) = []"
| "children (StringLiteral t) = []"
| "children (NoSubstitutionTemplateLiteral t) = []"
| "children (OtherLiteral t) = []"
| "children (ObjectLiteralExpression ps) = ps"
| "children (PropertyAssignment nm ini) = [nm, ini]"
| "children (ShorthandPropertyAssignment nm ini) = nm # optChild ini"
| "children (SpreadAssignment e) = [e]"
| "children (MethodDeclaration nm cs) = nm # cs"
| "children (VariableDeclaration nm ty ini) = nm # optChild ty @ optChild ini"
| "children (CallExpression e targs args) = e # targs @ args"
| "children (JsxOpeningElement tag targs attrs) = tag # targs @ [JsxAttributes attrs]"
| "children (JsxSelfClosingElement tag targs attrs) = tag # targs @ [JsxAttributes attrs]"
| "children (JsxAttributes attrs) = attrs"
| "children (JsxAttribute nm ini) = Identifier nm # optChild ini"
| "children (JsxSpreadAttribute e) = [e]"
| "children (JsxExpression e) = optChild e"
| "children (OtherNode cs) = cs"

text \<open>
  The measure of the tree walks: twice the size of the node, plus one except for a
  \<open>JsxAttributes\<close> node (which \<open>children\<close> builds from the fields of its element).
\<close>

fun weight :: "node \<Rightarrow> nat" where
  "weight (JsxAttributes attrs) = 2 * size (JsxAttributes attrs)"
| "weight n = 2 * size n + 1"

lemma size_mem: "c \<in> set cs \<Longrightarrow> size c < Suc (size_list size cs)"
  by (induction cs) auto

lemma set_optChild [simp]: "c \<in> set (optChild x) \<longleftrightarrow> x = Some c"
  by (cases x) auto

lemma weight_le: "weight c \<le> 2 * size c + 1"
  by (cases c) auto

lemma weight_children: "c \<in> set (children n) \<Longrightarrow> weight c < weight n"
  using weight_le [of c]
  by (cases n) (auto dest!: size_mem split: option.splits)

section \<open>Message descriptors\<close>

text \<open>
  A \<^verbatim>\<open>Partial<Message>\<close> is a JavaScript object with string keys and string
  values: an association list in insertion order. \<^verbatim>\<open>target[key] = value\<close> is
  \<open>AList.update\<close>, which replaces the value of a key that is present and appends a
  new key at the end. \<^verbatim>\<open>isValidMessage\<close> is a type guard: the object that is
  pushed to the output is the partial descriptor itself.
\<close>

type_synonym message = "(string \<times> string) list"

definition copyIfMessageKey :: "message \<Rightarrow> string \<Rightarrow> string \<Rightarrow> message" where
  "copyIfMessageKey target key v =
     (if key = ''defaultMessage'' \<or> key = ''description'' \<or> key = ''id''
      then AList.update key v target
      else target)"

definition isValidMessage :: "message \<Rightarrow> bool" where
  "isValidMessage obj \<longleftrightarrow> ''id'' \<in> fst ` set obj \<and> ''defaultMessage'' \<in> fst ` set obj"

section \<open>Tests on nodes\<close>

text \<open>
  \<open>isMethodCall\<close>: a variable declaration whose initializer is a call of the
  identifier \<open>methodName\<close>.
\<close>

fun isMethodCall :: "node \<Rightarrow> string \<Rightarrow> bool" where
  "isMethodCall (VariableDeclaration nm ty (Some (CallExpression (Identifier t) targs args))) methodName
     \<longleftrightarrow> t = methodName"
| "isMethodCall el methodName \<longleftrightarrow> False"

text \<open>
  \<open>identifierOrLiteralText x\<close> is \<^verbatim>\<open>x.text\<close> under the guard
  \<^verbatim>\<open>ts.isIdentifier(x) || ts.isLiteralExpression(x)\<close>;
  \<open>stringLiteralText x\<close> is \<^verbatim>\<open>x.text\<close> under \<^verbatim>\<open>ts.isStringLiteral(x)\<close>;
  \<open>stringOrTemplateText x\<close> is \<^verbatim>\<open>x.text\<close> under
  \<^verbatim>\<open>ts.isStringLiteral(x) || ts.isNoSubstitutionTemplateLiteral(x)\<close>.
  \<open>None\<close> says that the guard fails.
\<close>

fun identifierOrLiteralText :: "node \<Rightarrow> string option" where
  "identifierOrLiteralText (Identifier t) = Some t"
| "identifierOrLiteralText (StringLiteral t) = Some t"
| "identifierOrLiteralText (NoSubstitutionTemplateLiteral t) = Some t"
| "identifierOrLiteralText (OtherLiteral t) = Some t"
| "identifierOrLiteralText n = None"

fun stringLiteralText :: "node \<Rightarrow> string option" where
  "stringLiteralText (StringLiteral t) = Some t"
| "stringLiteralText n = None"

fun stringOrTemplateText :: "node \<Rightarrow> string option" where
  "stringOrTemplateText (StringLiteral t) = Some t"
| "stringOrTemplateText (NoSubstitutionTemplateLiteral t) = Some t"
| "stringOrTemplateText n = None"

section \<open>The extractors of object literals\<close>

text \<open>
  An extractor takes \<^verbatim>\<open>objLiteral.properties\<close>. \<^verbatim>\<open>forEach\<close> with a callback
  that writes to a variable of the enclosing function is \<open>fold\<close> of the callback
  over the array, the variable being the state.

  \<open>defineMessagesInner\<close> is the callback of the inner \<^verbatim>\<open>forEach\<close> of
  \<^verbatim>\<open>extractMessagesForDefineMessages\<close> (on the properties of one inner object
  literal, state \<^verbatim>\<open>msg\<close>), \<open>defineMessagesOuter\<close> the callback of the outer one
  (state \<^verbatim>\<open>messages\<close>). An element that is not a property assignment changes
  nothing, whatever its name is.
\<close>

fun defineMessagesInner :: "node \<Rightarrow> message \<Rightarrow> message" where
  "defineMessagesInner (PropertyAssignment nm ini) msg =
     (case identifierOrLiteralText nm of
        None \<Rightarrow> msg
      | Some name \<Rightarrow>
          (case stringOrTemplateText ini of
             None \<Rightarrow> msg
           | Some t \<Rightarrow> copyIfMessageKey msg name t))"
| "defineMessagesInner ip msg = msg"

fun defineMessagesOuter :: "node \<Rightarrow> message list \<Rightarrow> message list" where
  "defineMessagesOuter (PropertyAssignment nm (ObjectLiteralExpression ips)) messages =
     (let msg = fold defineMessagesInner ips []
      in if isValidMessage msg then messages @ [msg] else messages)"
| "defineMessagesOuter p messages = messages"

definition extractMessagesForDefineMessages :: "node list \<Rightarrow> message list" where
  "extractMessagesForDefineMessages properties = fold defineMessagesOuter properties []"

fun formatMessageProperty :: "node \<Rightarrow> message \<Rightarrow> message" where
  "formatMessageProperty (PropertyAssignment nm ini) msg =
     (case identifierOrLiteralText nm of
        None \<Rightarrow> msg
      | Some name \<Rightarrow>
          (case stringLiteralText ini of
             None \<Rightarrow> msg
           | Some t \<Rightarrow> copyIfMessageKey msg name t))"
| "formatMessageProperty p msg = msg"

definition extractMessagesForFormatMessage :: "node list \<Rightarrow> message list" where
  "extractMessagesForFormatMessage properties =
     (let msg = fold formatMessageProperty properties []
      in if isValidMessage msg then [msg] else [])"

section \<open>Tree walks\<close>

text \<open>
  \<^verbatim>\<open>ts.forEachChild(node, cb)\<close> of the TypeScript compiler API calls \<open>cb\<close> on each
  child of the node in order; when a call returns a truthy value, it stops and returns
  that value, and it returns \<^verbatim>\<open>undefined\<close> after the last child otherwise.
  The callbacks of the source write to a variable of the enclosing function, so a
  callback takes and returns that state; \<open>None\<close> is \<^verbatim>\<open>undefined\<close>.
\<close>

fun forEachNodes :: "(node \<Rightarrow> 's \<Rightarrow> 'r option \<times> 's) \<Rightarrow> node list \<Rightarrow> 's \<Rightarrow> 'r option \<times> 's" where
  "forEachNodes cb [] s = (None, s)"
| "forEachNodes cb (c # cs) s =
     (case cb c s of
        (Some r, s') \<Rightarrow> (Some r, s')
      | (None, s') \<Rightarrow> forEachNodes cb cs s')"

definition forEachChild :: "node \<Rightarrow> (node \<Rightarrow> 's \<Rightarrow> 'r option \<times> 's) \<Rightarrow> 's \<Rightarrow> 'r option \<times> 's" where
  "forEachChild n cb s = forEachNodes cb (children n) s"

lemma forEachNodes_cong [fundef_cong]:
  "cs = cs' \<Longrightarrow> s = s' \<Longrightarrow> (\<And>c t. c \<in> set cs' \<Longrightarrow> cb c t = cb' c t)
     \<Longrightarrow> forEachNodes cb cs s = forEachNodes cb' cs' s'"
proof (induction cs' arbitrary: cs s s')
  case Nil
  then show ?case by simp
next
  case (Cons c cs')
  then show ?case by (simp split: prod.splits option.splits)
qed

lemma forEachChild_cong [fundef_cong]:
  "n = n' \<Longrightarrow> s = s' \<Longrightarrow> (\<And>c t. c \<in> set (children n') \<Longrightarrow> cb c t = cb' c t)
     \<Longrightarrow> forEachChild n cb s = forEachChild n' cb' s'"
  unfolding forEachChild_def by (rule forEachNodes_cong) auto

text \<open>
  \<open>find\<close> is the inner function of \<^verbatim>\<open>extractMessagesForNode\<close>, with state
  \<^verbatim>\<open>res\<close>: at an object literal it appends what the extractor returns and does not
  go further down.
\<close>

function (sequential) find :: "(node list \<Rightarrow> message list) \<Rightarrow> node \<Rightarrow> message list
    \<Rightarrow> message list option \<times> message list" where
  "find extractMessages (ObjectLiteralExpression ps) res = (None, res @ extractMessages ps)"
| "find extractMessages n res = forEachChild n (\<lambda>c t. find extractMessages c t) res"
  by pat_completeness auto

lemma find_total: "All find_dom"
  by (relation "measure (\<lambda>(e, n, r). weight n)")
     (simp_all add: weight_children del: children.simps weight.simps)

termination find
  by (rule find_total)

definition extractMessagesForNode :: "node \<Rightarrow> (node list \<Rightarrow> message list) \<Rightarrow> message list" where
  "extractMessagesForNode n extractMessages = snd (find extractMessages n [])"

text \<open>
  \<open>forAllVarDecls\<close> returns nothing, so the callback it gives to
  \<^verbatim>\<open>ts.forEachChild\<close> returns \<^verbatim>\<open>undefined\<close>.
\<close>

function (sequential) forAllVarDecls :: "node \<Rightarrow> (node \<Rightarrow> 's \<Rightarrow> 's) \<Rightarrow> 's \<Rightarrow> 's" where
  "forAllVarDecls (VariableDeclaration nm ty ini) cb s = cb (VariableDeclaration nm ty ini) s"
| "forAllVarDecls n cb s =
     snd (forEachChild n (\<lambda>c t. (None :: unit option, forAllVarDecls c cb t)) s)"
  by pat_completeness auto

lemma forAllVarDecls_total:
  "All (forAllVarDecls_dom :: node \<times> (node \<Rightarrow> 's \<Rightarrow> 's) \<times> 's \<Rightarrow> bool)"
  by (relation "measure (\<lambda>(n, c, s). weight n)")
     (simp_all add: weight_children del: children.simps weight.simps)

termination forAllVarDecls
  by (rule forAllVarDecls_total)

text \<open>
  \<open>jsxIdentifierTagName n\<close> is \<^verbatim>\<open>n.tagName.text\<close> under the guard
  \<^verbatim>\<open>ts.isJsxOpeningLikeElement(n) && ts.isIdentifier(n.tagName)\<close>.
\<close>

fun jsxIdentifierTagName :: "node \<Rightarrow> string option" where
  "jsxIdentifierTagName (JsxOpeningElement (Identifier t) targs attrs) = Some t"
| "jsxIdentifierTagName (JsxSelfClosingElement (Identifier t) targs attrs) = Some t"
| "jsxIdentifierTagName n = None"

function findJsxElement :: "string \<Rightarrow> node \<Rightarrow> node list \<Rightarrow> unit option \<times> node list" where
  "findJsxElement tagName n messages =
     forEachChild n (\<lambda>c t. findJsxElement tagName c t)
       (if jsxIdentifierTagName n = Some tagName then messages @ [n] else messages)"
  by pat_completeness auto

lemma findJsxElement_total: "All findJsxElement_dom"
  by (relation "measure (\<lambda>(t, n, m). weight n)")
     (simp_all add: weight_children del: children.simps weight.simps)

termination findJsxElement
  by (rule findJsxElement_total)

definition findJsxOpeningLikeElementsWithName :: "node \<Rightarrow> string \<Rightarrow> node list" where
  "findJsxOpeningLikeElementsWithName n tagName = snd (findJsxElement tagName n [])"

text \<open>
  \<open>firstArgument decl\<close> is \<^verbatim>\<open>decl.initializer.arguments[0]\<close> under the guard
  \<^verbatim>\<open>decl.initializer && ts.isCallExpression(decl.initializer) &&
  decl.initializer.arguments.length\<close>; \<open>methodCallMessages\<close> is the callback that
  \<^verbatim>\<open>findMethodCallsWithName\<close> gives to \<open>forAllVarDecls\<close>, with state
  \<^verbatim>\<open>messages\<close>.
\<close>

fun firstArgument :: "node \<Rightarrow> node option" where
  "firstArgument (VariableDeclaration nm ty (Some (CallExpression e targs (a # args)))) = Some a"
| "firstArgument decl = None"

definition methodCallMessages :: "string \<Rightarrow> (node list \<Rightarrow> message list) \<Rightarrow> node
    \<Rightarrow> message list \<Rightarrow> message list" where
  "methodCallMessages methodName extractMessages decl messages =
     (if isMethodCall decl methodName
      then (case firstArgument decl of
              None \<Rightarrow> messages
            | Some nodeProps \<Rightarrow> messages @ extractMessagesForNode nodeProps extractMessages)
      else messages)"

definition findMethodCallsWithName :: "node \<Rightarrow> string \<Rightarrow> (node list \<Rightarrow> message list)
    \<Rightarrow> message list" where
  "findMethodCallsWithName sourceFile methodName extractMessages =
     forAllVarDecls sourceFile (methodCallMessages methodName extractMessages) []"

section \<open>Markup elements\<close>

text \<open>
  \<open>jsxAttribute\<close> is the callback of the \<^verbatim>\<open>forEach\<close> over the attributes of one
  element, with state \<^verbatim>\<open>msg\<close>; \<open>elementMessage\<close> is the function that
  \<^verbatim>\<open>getElementsMessages\<close> maps over the elements, \<open>None\<close> being \<^verbatim>\<open>null\<close>.
\<close>

fun jsxAttribute :: "node \<Rightarrow> message \<Rightarrow> message" where
  "jsxAttribute (JsxAttribute key (Some (StringLiteral t))) msg = copyIfMessageKey msg key t"
| "jsxAttribute (JsxAttribute key (Some (JsxExpression (Some e)))) msg =
     (case stringOrTemplateText e of
        None \<Rightarrow> msg
      | Some t \<Rightarrow> copyIfMessageKey msg key t)"
| "jsxAttribute attr msg = msg"

fun attributesProperties :: "node \<Rightarrow> node list" where
  "attributesProperties (JsxOpeningElement tag targs attrs) = attrs"
| "attributesProperties (JsxSelfClosingElement tag targs attrs) = attrs"
| "attributesProperties n = []"

definition elementMessage :: "node \<Rightarrow> message option" where
  "elementMessage element =
     (let msg = fold jsxAttribute (attributesProperties element) []
      in if isValidMessage msg then Some msg else None)"

definition notNull :: "'a option \<Rightarrow> bool" where
  "notNull v \<longleftrightarrow> v \<noteq> None"

definition getElementsMessages :: "node list \<Rightarrow> message list" where
  "getElementsMessages elements = map the (filter notNull (map elementMessage elements))"

section \<open>The entry point\<close>

text \<open>
  \<open>main\<close> takes the tree that \<^verbatim>\<open>ts.createSourceFile\<close> returns for
  \<^verbatim>\<open>contents\<close>. A caller that gives no options gets \<open>defaultOptions\<close>.
\<close>

record options =
  tagNames :: "string list"

definition defaultOptions :: options where
  "defaultOptions = \<lparr>tagNames = []\<rparr>"

definition main :: "node \<Rightarrow> options \<Rightarrow> message list" where
  "main sourceFile opts =
     (let dm = findMethodCallsWithName sourceFile ''defineMessages'' extractMessagesForDefineMessages;
          fm = findMethodCallsWithName sourceFile ''formatMessage'' extractMessagesForFormatMessage;
          results = fold (\<lambda>tagName results.
                       results @ getElementsMessages (findJsxOpeningLikeElementsWithName sourceFile tagName))
                     ([''FormattedMessage''] @ tagNames opts) []
      in (results @ dm) @ fm)"

section \<open>Document order\<close>

text \<open>
  From here on the definitions are not translations of the source: they say what the
  specification and the claims say, to be compared with the source's functions.

  The specification speaks of document order: \<open>preorder n\<close> lists the nodes of
  the tree \<open>n\<close>, a parent before its children and the children in source order.
  \<open>varDecls n\<close> lists the variable declarations of \<open>n\<close> that are not inside
  another variable declaration, \<open>objectLiterals n\<close> the object literals of \<open>n\<close>
  that are not inside another object literal, both in that order.
\<close>

fun isObjectLiteralExpression :: "node \<Rightarrow> bool" where
  "isObjectLiteralExpression (ObjectLiteralExpression ps) = True"
| "isObjectLiteralExpression n = False"

fun isVariableDeclaration :: "node \<Rightarrow> bool" where
  "isVariableDeclaration (VariableDeclaration nm ty ini) = True"
| "isVariableDeclaration n = False"

fun properties :: "node \<Rightarrow> node list" where
  "properties (ObjectLiteralExpression ps) = ps"
| "properties n = []"

function preorder :: "node \<Rightarrow> node list" where
  "preorder n = n # concat (map preorder (children n))"
  by pat_completeness auto
termination
  by (relation "measure weight") (simp_all add: weight_children del: children.simps weight.simps)

function varDecls :: "node \<Rightarrow> node list" where
  "varDecls n = (if isVariableDeclaration n then [n] else concat (map varDecls (children n)))"
  by pat_completeness auto
termination
  by (relation "measure weight") (simp_all add: weight_children del: children.simps weight.simps)

function objectLiterals :: "node \<Rightarrow> node list" where
  "objectLiterals n =
     (if isObjectLiteralExpression n then [n] else concat (map objectLiterals (children n)))"
  by pat_completeness auto
termination
  by (relation "measure weight") (simp_all add: weight_children del: children.simps weight.simps)

declare preorder.simps [simp del]
declare varDecls.simps [simp del]
declare objectLiterals.simps [simp del]
declare findJsxElement.simps [simp del]

text \<open>
  The three groups of the output, in the words of the specification:
  the descriptors of the elements with one tag name, in document order;
  the descriptors of one variable declaration (those of the object literals inside
  the first argument of the call, when the declaration is initialised by a call of
  \<open>methodName\<close>); the descriptors of all declarations, in document order.
\<close>

definition markupDescriptors :: "node \<Rightarrow> string \<Rightarrow> message list" where
  "markupDescriptors sourceFile tagName =
     List.map_filter elementMessage
       (filter (\<lambda>n. jsxIdentifierTagName n = Some tagName) (preorder sourceFile))"

definition declarationDescriptors :: "string \<Rightarrow> (node list \<Rightarrow> message list) \<Rightarrow> node
    \<Rightarrow> message list" where
  "declarationDescriptors methodName extractMessages decl =
     (if isMethodCall decl methodName
      then (case firstArgument decl of
              None \<Rightarrow> []
            | Some a \<Rightarrow> concat (map (\<lambda>l. extractMessages (properties l)) (objectLiterals a)))
      else [])"

definition callDescriptors :: "string \<Rightarrow> (node list \<Rightarrow> message list) \<Rightarrow> node
    \<Rightarrow> message list" where
  "callDescriptors methodName extractMessages sourceFile =
     concat (map (declarationDescriptors methodName extractMessages) (varDecls sourceFile))"

section \<open>The words of the specification\<close>

text \<open>
  \<open>messageKeys\<close> are the three recognized field names. A field reader gives the
  name and the value of a property or attribute that a matcher accepts:
  \<open>defineMessagesField\<close> for the inner properties of the bulk map (the name is an
  identifier or a literal, the value a string literal or a no-substitution template
  literal), \<open>formatMessageField\<close> for the properties of the single call (the value
  is a string literal), \<open>literalAttribute\<close> for the attributes of a markup element
  (a string literal, or an embedded expression that is a string literal or a
  no-substitution template literal). \<open>copyField\<close> copies what a reader gives.
\<close>

definition messageKeys :: "string set" where
  "messageKeys = {''defaultMessage'', ''description'', ''id''}"

fun defineMessagesField :: "node \<Rightarrow> (string \<times> string) option" where
  "defineMessagesField (PropertyAssignment nm ini) =
     (case identifierOrLiteralText nm of
        None \<Rightarrow> None
      | Some name \<Rightarrow> map_option (Pair name) (stringOrTemplateText ini))"
| "defineMessagesField p = None"

fun formatMessageField :: "node \<Rightarrow> (string \<times> string) option" where
  "formatMessageField (PropertyAssignment nm ini) =
     (case identifierOrLiteralText nm of
        None \<Rightarrow> None
      | Some name \<Rightarrow> map_option (Pair name) (stringLiteralText ini))"
| "formatMessageField p = None"

fun literalAttribute :: "node \<Rightarrow> (string \<times> string) option" where
  "literalAttribute (JsxAttribute key (Some (StringLiteral t))) = Some (key, t)"
| "literalAttribute (JsxAttribute key (Some (JsxExpression (Some e)))) =
     map_option (Pair key) (stringOrTemplateText e)"
| "literalAttribute attr = None"

definition copyField :: "(string \<times> string) option \<Rightarrow> message \<Rightarrow> message" where
  "copyField f msg = (case f of None \<Rightarrow> msg | Some (k, v) \<Rightarrow> copyIfMessageKey msg k v)"

text \<open>
  The attributes that claim C5 names: a spread attribute, an attribute without a
  value, and an attribute whose embedded expression is missing or is not a string
  literal or a no-substitution template literal.
\<close>

fun skippedAttribute :: "node \<Rightarrow> bool" where
  "skippedAttribute (JsxSpreadAttribute e) = True"
| "skippedAttribute (JsxAttribute key None) = True"
| "skippedAttribute (JsxAttribute key (Some (JsxExpression None))) = True"
| "skippedAttribute (JsxAttribute key (Some (JsxExpression (Some e)))) = (stringOrTemplateText e = None)"
| "skippedAttribute attr = False"

text \<open>
  The descriptors of one property of the outer object literal of a bulk map: one when
  the value is an object literal whose partial descriptor has \<open>id\<close> and
  \<open>defaultMessage\<close>, none otherwise.
\<close>

fun propertyDescriptors :: "node \<Rightarrow> message list" where
  "propertyDescriptors (PropertyAssignment nm (ObjectLiteralExpression ips)) =
     (if map_of (fold defineMessagesInner ips []) ''id'' \<noteq> None
         \<and> map_of (fold defineMessagesInner ips []) ''defaultMessage'' \<noteq> None
      then [fold defineMessagesInner ips []]
      else [])"
| "propertyDescriptors p = []"

text \<open>
  \<open>literalTexts n\<close> are the texts of the string literals and no-substitution
  template literals of the tree \<open>n\<close>. A descriptor is well formed for a tree when
  it has \<open>id\<close> and \<open>defaultMessage\<close>, its keys are recognized and its values are
  such texts.
\<close>

definition literalTexts :: "node \<Rightarrow> string list" where
  "literalTexts sourceFile = List.map_filter stringOrTemplateText (preorder sourceFile)"

definition wellFormed :: "node \<Rightarrow> message \<Rightarrow> bool" where
  "wellFormed sf m \<longleftrightarrow> isValidMessage m \<and> fst ` set m \<subseteq> messageKeys
     \<and> snd ` set m \<subseteq> set (literalTexts sf)"

section \<open>Example trees\<close>

text \<open>
  The trees of a few source texts, as the parser builds them (a source file is its
  statements and the end-of-file token):
  \<^item> \<open>emptyLiterals\<close>: \<^verbatim>\<open><FormattedMessage id="" defaultMessage="" />;\<close>
  \<^item> \<open>messagesDeclaration\<close>: the declaration
    \<^verbatim>\<open>m = defineMessages({a: {id: "x", defaultMessage: "y"}})\<close>
  \<^item> \<open>topLevelDeclaration\<close>:
    \<^verbatim>\<open>const m = defineMessages({a: {id: "x", defaultMessage: "y"}});\<close>
  \<^item> \<open>nestedDeclaration\<close>: the same statement in the body of an arrow function,
    \<^verbatim>\<open>const f = () => { const m = defineMessages({a: {id: "x", defaultMessage: "y"}}); };\<close>
  \<^item> \<open>bareCall\<close>: the call \<^verbatim>\<open>formatMessage({id: "a", defaultMessage: "b"})\<close>
  \<^item> \<open>loggedStatement\<close>, and \<open>loggedCall\<close> for the file that has only this
    statement: \<^verbatim>\<open>console.log(formatMessage({id: "a", defaultMessage: "b"}));\<close>
  \<^item> \<open>oneDeclaration\<close>: the statement
    \<^verbatim>\<open>const s = formatMessage({id: "1", defaultMessage: "one"});\<close>
  \<^item> \<open>declarationAndCall\<close>: the file of \<open>oneDeclaration\<close> followed by
    \<open>loggedStatement\<close>
  \<^item> \<open>wrappedCall\<close>:
    \<^verbatim>\<open>const t = formatMessage(wrap(formatMessage({id: "a", defaultMessage: "b"})));\<close>
  \<^item> \<open>malformedDeclaration\<close>: the malformed text
    \<^verbatim>\<open>const m = defineMessages({a: {id: "x", defaultMessage: "y"}, b: {id: }});\<close>
    where the parser puts an identifier with the empty text in the place of the
    expression that is missing
  \<^item> \<open>duplicateProperties\<close>: the properties of
    \<^verbatim>\<open>{id: "first", id: "second", defaultMessage: "d"}\<close>
  \<^item> \<open>duplicateAttributes\<close>: the attributes of
    \<^verbatim>\<open><FormattedMessage id="first" id={"second"} defaultMessage="d" />\<close>
  \<^item> \<open>mixedAttributes\<close>: the attributes of
    \<^verbatim>\<open><FormattedMessage id="a" {...props} description={d} values defaultMessage={`b`} />\<close>
\<close>

definition emptyLiterals :: node where
  "emptyLiterals = OtherNode
     [OtherNode
        [JsxSelfClosingElement (Identifier ''FormattedMessage'') []
           [JsxAttribute ''id'' (Some (StringLiteral '''')),
            JsxAttribute ''defaultMessage'' (Some (StringLiteral ''''))]],
      OtherNode []]"

definition messagesDeclaration :: node where
  "messagesDeclaration =
     VariableDeclaration (Identifier ''m'') None
       (Some (CallExpression (Identifier ''defineMessages'') []
          [ObjectLiteralExpression
             [PropertyAssignment (Identifier ''a'')
                (ObjectLiteralExpression
                   [PropertyAssignment (Identifier ''id'') (StringLiteral ''x''),
                    PropertyAssignment (Identifier ''defaultMessage'') (StringLiteral ''y'')])]]))"

definition topLevelDeclaration :: node where
  "topLevelDeclaration = OtherNode [OtherNode [OtherNode [messagesDeclaration]], OtherNode []]"

definition nestedDeclaration :: node where
  "nestedDeclaration = OtherNode
     [OtherNode [OtherNode
        [VariableDeclaration (Identifier ''f'') None
           (Some (OtherNode
              [OtherNode [],
               OtherNode [OtherNode [OtherNode [messagesDeclaration]]]]))]],
      OtherNode []]"

definition bareCall :: node where
  "bareCall =
     CallExpression (Identifier ''formatMessage'') []
       [ObjectLiteralExpression
          [PropertyAssignment (Identifier ''id'') (StringLiteral ''a''),
           PropertyAssignment (Identifier ''defaultMessage'') (StringLiteral ''b'')]]"

definition loggedStatement :: node where
  "loggedStatement =
     OtherNode
       [CallExpression (OtherNode [Identifier ''console'', Identifier ''log'']) [] [bareCall]]"

definition loggedCall :: node where
  "loggedCall = OtherNode [loggedStatement, OtherNode []]"

definition oneDeclaration :: node where
  "oneDeclaration =
     OtherNode [OtherNode
       [VariableDeclaration (Identifier ''s'') None
          (Some (CallExpression (Identifier ''formatMessage'') []
             [ObjectLiteralExpression
                [PropertyAssignment (Identifier ''id'') (StringLiteral ''1''),
                 PropertyAssignment (Identifier ''defaultMessage'') (StringLiteral ''one'')]]))]]"

definition declarationAndCall :: node where
  "declarationAndCall = OtherNode [oneDeclaration, loggedStatement, OtherNode []]"

definition wrappedCall :: node where
  "wrappedCall = OtherNode
     [OtherNode [OtherNode
        [VariableDeclaration (Identifier ''t'') None
           (Some (CallExpression (Identifier ''formatMessage'') []
              [CallExpression (Identifier ''wrap'') [] [bareCall]]))]],
      OtherNode []]"

definition malformedDeclaration :: node where
  "malformedDeclaration = OtherNode
     [OtherNode [OtherNode
        [VariableDeclaration (Identifier ''m'') None
           (Some (CallExpression (Identifier ''defineMessages'') []
              [ObjectLiteralExpression
                 [PropertyAssignment (Identifier ''a'')
                    (ObjectLiteralExpression
                       [PropertyAssignment (Identifier ''id'') (StringLiteral ''x''),
                        PropertyAssignment (Identifier ''defaultMessage'') (StringLiteral ''y'')]),
                  PropertyAssignment (Identifier ''b'')
                    (ObjectLiteralExpression
                       [PropertyAssignment (Identifier ''id'') (Identifier '''')])]]))]],
      OtherNode []]"

definition duplicateProperties :: "node list" where
  "duplicateProperties =
     [PropertyAssignment (Identifier ''id'') (StringLiteral ''first''),
      PropertyAssignment (Identifier ''id'') (StringLiteral ''second''),
      PropertyAssignment (Identifier ''defaultMessage'') (StringLiteral ''d'')]"

definition duplicateAttributes :: "node list" where
  "duplicateAttributes =
     [JsxAttribute ''id'' (Some (StringLiteral ''first'')),
      JsxAttribute ''id'' (Some (JsxExpression (Some (StringLiteral ''second'')))),
      JsxAttribute ''defaultMessage'' (Some (StringLiteral ''d''))]"

definition mixedAttributes :: "node list" where
  "mixedAttributes =
     [JsxAttribute ''id'' (Some (StringLiteral ''a'')),
      JsxSpreadAttribute (Identifier ''props''),
      JsxAttribute ''description'' (Some (JsxExpression (Some (Identifier ''d'')))),
      JsxAttribute ''values'' None,
      JsxAttribute ''defaultMessage'' (Some (JsxExpression (Some (NoSubstitutionTemplateLiteral ''b''))))]"

section \<open>The tree walks as lists\<close>

lemma concat_map_concat:
  "concat (map f (concat xss)) = concat (map (\<lambda>xs. concat (map f xs)) xss)"
  by (induction xss) simp_all

lemma forEachNodes_append:
  "(\<And>c t. c \<in> set cs \<Longrightarrow> cb c t = (None, t @ g c))
     \<Longrightarrow> forEachNodes cb cs s = (None, s @ concat (map g cs))"
  by (induction cs arbitrary: s) simp_all

lemma find_unfold:
  "find ex n res = (if isObjectLiteralExpression n then (None, res @ ex (properties n))
                    else forEachChild n (find ex) res)"
  by (cases n) simp_all

lemma find_eq: "find ex n res = (None, res @ concat (map (\<lambda>l. ex (properties l)) (objectLiterals n)))"
proof (induction n arbitrary: res rule: measure_induct_rule [where f = weight])
  case (less n)
  show ?case
  proof (cases "isObjectLiteralExpression n")
    case True
    then show ?thesis by (simp add: find_unfold objectLiterals.simps [of n])
  next
    case False
    have "forEachNodes (find ex) (children n) res
        = (None, res @ concat (map (\<lambda>c. concat (map (\<lambda>l. ex (properties l)) (objectLiterals c))) (children n)))"
      by (rule forEachNodes_append) (simp add: less weight_children)
    with False show ?thesis
      by (simp add: find_unfold [of ex n] objectLiterals.simps [of n] forEachChild_def concat_map_concat comp_def)
  qed
qed

lemma forAllVarDecls_unfold:
  "forAllVarDecls n cb s = (if isVariableDeclaration n then cb n s
     else snd (forEachChild n (\<lambda>c t. (None :: unit option, forAllVarDecls c cb t)) s))"
  by (cases n) simp_all

lemma forEachNodes_fold:
  "forEachNodes (\<lambda>c t. (None, f c t)) cs s = (None, fold f cs s)"
  by (induction cs arbitrary: s) simp_all

lemma forAllVarDecls_eq: "forAllVarDecls n cb s = fold cb (varDecls n) s"
proof (induction n arbitrary: s rule: measure_induct_rule [where f = weight])
  case (less n)
  show ?case
  proof (cases "isVariableDeclaration n")
    case True
    then show ?thesis by (simp add: forAllVarDecls_unfold varDecls.simps [of n])
  next
    case False
    have "fold (\<lambda>c. forAllVarDecls c cb) cs t = fold cb (concat (map varDecls cs)) t"
      if "set cs \<subseteq> set (children n)" for cs t
      using that by (induction cs arbitrary: t) (simp_all add: less weight_children)
    with False show ?thesis
      by (simp add: forAllVarDecls_unfold [of n] varDecls.simps [of n] forEachChild_def forEachNodes_fold)
  qed
qed

lemma findJsxElement_eq:
  "findJsxElement tagName n acc
     = (None, acc @ filter (\<lambda>m. jsxIdentifierTagName m = Some tagName) (preorder n))"
proof (induction n arbitrary: acc rule: measure_induct_rule [where f = weight])
  case (less n)
  have "forEachNodes (findJsxElement tagName) (children n) t
        = (None, t @ concat (map (\<lambda>c. filter (\<lambda>m. jsxIdentifierTagName m = Some tagName) (preorder c)) (children n)))" for t
    by (rule forEachNodes_append) (simp add: less weight_children)
  then show ?case
    by (subst findJsxElement.simps, subst preorder.simps)
       (simp add: forEachChild_def filter_concat comp_def)
qed

lemma fold_append_concat: "fold (\<lambda>x acc. acc @ f x) xs a = a @ concat (map f xs)"
  by (induction xs arbitrary: a) simp_all

lemma getElementsMessages_map_filter: "getElementsMessages els = List.map_filter elementMessage els"
  by (induction els) (simp_all add: getElementsMessages_def map_filter_simps notNull_def split: option.splits)

lemma findJsx_eq:
  "findJsxOpeningLikeElementsWithName sf tagName
     = filter (\<lambda>n. jsxIdentifierTagName n = Some tagName) (preorder sf)"
  by (simp add: findJsxOpeningLikeElementsWithName_def findJsxElement_eq)

lemma extractMessagesForNode_eq:
  "extractMessagesForNode a ex = concat (map (\<lambda>l. ex (properties l)) (objectLiterals a))"
  by (simp add: extractMessagesForNode_def find_eq)

lemma methodCallMessages_eq:
  "methodCallMessages name ex decl messages = messages @ declarationDescriptors name ex decl"
  by (simp add: methodCallMessages_def declarationDescriptors_def extractMessagesForNode_eq
      split: option.splits)

lemma findMethodCallsWithName_eq:
  "findMethodCallsWithName sf name ex = callDescriptors name ex sf"
proof -
  have "methodCallMessages name ex = (\<lambda>d acc. acc @ declarationDescriptors name ex d)"
    by (intro ext) (rule methodCallMessages_eq)
  then show ?thesis
    by (simp add: findMethodCallsWithName_def forAllVarDecls_eq callDescriptors_def
        fold_append_concat)
qed

lemma isMethodCall_declaration: "isMethodCall d methodName \<Longrightarrow> isVariableDeclaration d"
  by (induction d methodName rule: isMethodCall.induct) simp_all

lemma findMethodCallsWithName_declaration:
  "isVariableDeclaration d
     \<Longrightarrow> findMethodCallsWithName d methodName ex = declarationDescriptors methodName ex d"
  by (simp add: findMethodCallsWithName_eq callDescriptors_def varDecls.simps [of d])

lemma subseq_concat_map:
  "(\<And>x. x \<in> set xs \<Longrightarrow> subseq (f x) (g x)) \<Longrightarrow> subseq (concat (map f xs)) (concat (map g xs))"
  by (induction xs) (auto intro: list_emb_append_mono)

lemma varDecls_subseq: "subseq (varDecls n) (preorder n)"
proof (induction n rule: measure_induct_rule [where f = weight])
  case (less n)
  have "subseq (concat (map varDecls (children n))) (concat (map preorder (children n)))"
    by (rule subseq_concat_map) (simp add: less weight_children)
  then show ?case
    by (subst varDecls.simps, subst preorder.simps) auto
qed

lemma objectLiterals_subseq: "subseq (objectLiterals n) (preorder n)"
proof (induction n rule: measure_induct_rule [where f = weight])
  case (less n)
  have "subseq (concat (map objectLiterals (children n))) (concat (map preorder (children n)))"
    by (rule subseq_concat_map) (simp add: less weight_children)
  then show ?case
    by (subst objectLiterals.simps, subst preorder.simps) auto
qed

lemma main_concat:
  "main sourceFile opts =
     concat (map (markupDescriptors sourceFile) (''FormattedMessage'' # tagNames opts))
     @ callDescriptors ''defineMessages'' extractMessagesForDefineMessages sourceFile
     @ callDescriptors ''formatMessage'' extractMessagesForFormatMessage sourceFile"
  by (simp add: main_def fold_append_concat findJsx_eq getElementsMessages_map_filter
      findMethodCallsWithName_eq markupDescriptors_def [abs_def])

section \<open>The nodes of a tree\<close>

lemma self_preorder: "n \<in> set (preorder n)"
  by (subst preorder.simps) simp

lemma child_preorder: "c \<in> set (children n) \<Longrightarrow> set (preorder c) \<subseteq> set (preorder n)"
  by (subst (2) preorder.simps) auto

lemma preorder_trans: "m \<in> set (preorder n) \<Longrightarrow> set (preorder m) \<subseteq> set (preorder n)"
proof (induction n rule: measure_induct_rule [where f = weight])
  case (less n)
  from less.prems have "m = n \<or> (\<exists>c\<in>set (children n). m \<in> set (preorder c))"
    by (subst (asm) preorder.simps) auto
  then show ?case
  proof
    assume "m = n"
    then show ?thesis by simp
  next
    assume "\<exists>c\<in>set (children n). m \<in> set (preorder c)"
    then obtain c where c: "c \<in> set (children n)" "m \<in> set (preorder c)" by blast
    then have "set (preorder m) \<subseteq> set (preorder c)"
      by (simp add: less.IH weight_children)
    with child_preorder [OF c(1)] show ?thesis by blast
  qed
qed

lemma preorder_child: "n \<in> set (preorder r) \<Longrightarrow> c \<in> set (children n) \<Longrightarrow> c \<in> set (preorder r)"
  using preorder_trans [of n r] child_preorder [of c n] self_preorder [of c] by blast

lemma varDecls_preorder: "d \<in> set (varDecls n) \<Longrightarrow> d \<in> set (preorder n)"
  using varDecls_subseq [of n] list_emb_set [of "(=)" "varDecls n" "preorder n" d] by blast

lemma objectLiterals_preorder: "l \<in> set (objectLiterals n) \<Longrightarrow> l \<in> set (preorder n)"
  using objectLiterals_subseq [of n] list_emb_set [of "(=)" "objectLiterals n" "preorder n" l]
  by blast

lemma varDecls_declarations: "d \<in> set (varDecls n) \<Longrightarrow> isVariableDeclaration d"
proof (induction n rule: measure_induct_rule [where f = weight])
  case (less n)
  show ?case
  proof (cases "isVariableDeclaration n")
    case True
    with less.prems show ?thesis by (simp add: varDecls.simps [of n])
  next
    case False
    with less.prems obtain c where "c \<in> set (children n)" "d \<in> set (varDecls c)"
      by (auto simp: varDecls.simps [of n])
    then show ?thesis using less.IH [of c] weight_children [of c n] by blast
  qed
qed

lemma no_candidates:
  assumes "\<forall>c\<in>set (preorder sourceFile). \<not> isVariableDeclaration c \<and> jsxIdentifierTagName c = None"
  shows "main sourceFile opts = []"
proof -
  have "varDecls sourceFile = []"
  proof (rule ccontr)
    assume "varDecls sourceFile \<noteq> []"
    then obtain d where d: "d \<in> set (varDecls sourceFile)"
      by (cases "varDecls sourceFile") auto
    then have "isVariableDeclaration d" by (rule varDecls_declarations)
    moreover have "d \<in> set (preorder sourceFile)" using d by (rule varDecls_preorder)
    ultimately show False using assms by blast
  qed
  moreover have "filter (\<lambda>n. jsxIdentifierTagName n = Some t) (preorder sourceFile) = []" for t
    using assms by (auto simp: filter_empty_conv)
  ultimately show ?thesis
    by (simp add: main_concat callDescriptors_def markupDescriptors_def map_filter_simps)
qed

lemma firstArgument_preorder: "firstArgument d = Some a \<Longrightarrow> a \<in> set (preorder d)"
proof (induction d rule: firstArgument.induct)
  case (1 nm ty e targs b args)
  let ?call = "CallExpression e targs (b # args)"
  let ?d = "VariableDeclaration nm ty (Some ?call)"
  have "?call \<in> set (preorder ?d)"
    using preorder_child [of ?d ?d ?call] by (simp add: self_preorder)
  then have "b \<in> set (preorder ?d)"
    using preorder_child [of ?call ?d b] by simp
  with 1 show ?case by simp
qed simp_all

lemma properties_children: "set (properties l) \<subseteq> set (children l)"
  by (cases l) simp_all

lemma attributesProperties_preorder:
  assumes "a \<in> set (attributesProperties el)" and "el \<in> set (preorder sf)"
  shows "a \<in> set (preorder sf)"
proof -
  have "JsxAttributes (attributesProperties el) \<in> set (children el)"
    using assms(1) by (cases el) simp_all
  then have "JsxAttributes (attributesProperties el) \<in> set (preorder sf)"
    using assms(2) preorder_child by blast
  then show ?thesis
    using preorder_child [of "JsxAttributes (attributesProperties el)" sf a] assms(1) by simp
qed

section \<open>Partial descriptors\<close>

lemma defineMessagesInner_field: "defineMessagesInner p = copyField (defineMessagesField p)"
  by (cases p) (auto simp: copyField_def fun_eq_iff split: option.splits)

lemma formatMessageProperty_field: "formatMessageProperty p = copyField (formatMessageField p)"
  by (cases p) (auto simp: copyField_def fun_eq_iff split: option.splits)

lemma jsxAttribute_field: "jsxAttribute a = copyField (literalAttribute a)"
  by (induction a "[] :: message" rule: jsxAttribute.induct)
     (auto simp: copyField_def fun_eq_iff split: option.splits)

lemma map_of_copyIfMessageKey:
  "map_of (copyIfMessageKey msg k v) = (if k \<in> messageKeys then (map_of msg)(k \<mapsto> v) else map_of msg)"
  by (auto simp: copyIfMessageKey_def messageKeys_def update_conv')

lemma map_of_fold_copyField:
  "map_of (fold (\<lambda>p. copyField (f p)) ps msg) k =
     (if k \<in> messageKeys
      then (case map_of (rev (List.map_filter f ps)) k of None \<Rightarrow> map_of msg k | Some v \<Rightarrow> Some v)
      else map_of msg k)"
proof (induction ps arbitrary: msg)
  case Nil
  then show ?case by (simp add: map_filter_simps)
next
  case (Cons p ps)
  show ?case
  proof (cases "f p")
    case None
    then have "copyField (f p) msg = msg" by (simp add: copyField_def)
    with None show ?thesis by (simp add: Cons map_filter_simps)
  next
    case (Some kv)
    obtain k' v' where kv: "kv = (k', v')" by (cases kv)
    with Some have "copyField (f p) msg = copyIfMessageKey msg k' v'"
      by (simp add: copyField_def)
    with Some kv show ?thesis
      by (simp add: Cons map_filter_simps map_of_copyIfMessageKey map_add_def
          split: option.splits)
  qed
qed

lemma isValidMessage_map_of:
  "isValidMessage msg \<longleftrightarrow> map_of msg ''id'' \<noteq> None \<and> map_of msg ''defaultMessage'' \<noteq> None"
  by (simp add: isValidMessage_def map_of_eq_None_iff)

lemma keys_copyIfMessageKey: "fst ` set (copyIfMessageKey msg k v) \<subseteq> fst ` set msg \<union> messageKeys"
  by (auto simp: copyIfMessageKey_def messageKeys_def dom_update)

lemma keys_fold_copyField:
  "fst ` set (fold (\<lambda>p. copyField (f p)) ps msg) \<subseteq> fst ` set msg \<union> messageKeys"
proof (induction ps arbitrary: msg)
  case Nil
  then show ?case by simp
next
  case (Cons p ps)
  have "fst ` set (copyField (f p) msg) \<subseteq> fst ` set msg \<union> messageKeys"
    using keys_copyIfMessageKey by (auto simp: copyField_def split: option.splits)
  with Cons [of "copyField (f p) msg"] show ?case by auto
qed

lemma values_update: "snd ` set (AList.update k v al) \<subseteq> insert v (snd ` set al)"
  by (induction al) auto

lemma values_copyField:
  "snd ` set (copyField fld msg) \<subseteq> snd ` set msg \<union> {v. \<exists>k. fld = Some (k, v)}"
proof (cases fld)
  case None
  then show ?thesis by (simp add: copyField_def)
next
  case (Some kv)
  obtain k v where kv: "kv = (k, v)" by (cases kv)
  have "snd ` set (copyIfMessageKey msg k v) \<subseteq> insert v (snd ` set msg)"
    using values_update [of k v msg] by (auto simp: copyIfMessageKey_def)
  then show ?thesis by (simp add: Some kv copyField_def)
qed

lemma values_fold_copyField:
  "snd ` set (fold (\<lambda>p. copyField (f p)) ps msg)
     \<subseteq> snd ` set msg \<union> {v. \<exists>p\<in>set ps. \<exists>k. f p = Some (k, v)}"
proof (induction ps arbitrary: msg)
  case Nil
  then show ?case by simp
next
  case (Cons p ps)
  let ?rest = "{v. \<exists>q\<in>set ps. \<exists>k. f q = Some (k, v)}"
  let ?here = "{v. \<exists>k. f p = Some (k, v)}"
  have "snd ` set (fold (\<lambda>p. copyField (f p)) ps (copyField (f p) msg))
      \<subseteq> snd ` set (copyField (f p) msg) \<union> ?rest"
    by (rule Cons)
  moreover have "snd ` set (copyField (f p) msg) \<subseteq> snd ` set msg \<union> ?here"
    by (rule values_copyField)
  moreover have "{v. \<exists>q\<in>set (p # ps). \<exists>k. f q = Some (k, v)} = ?here \<union> ?rest"
    by auto
  ultimately show ?case
    by (simp only: fold_simps) blast
qed

lemma map_of_rev_last:
  "f p = Some (k, v) \<Longrightarrow> \<forall>q\<in>set qs. \<forall>w. f q \<noteq> Some (k, w)
     \<Longrightarrow> map_of (rev (List.map_filter f (ps @ p # qs))) k = Some v"
proof (induction qs rule: rev_induct)
  case Nil
  then show ?case by (simp add: map_filter_def)
next
  case (snoc q qs)
  then show ?case
    by (cases "f q") (auto simp: map_filter_def)
qed

lemma map_of_rev_present:
  "a \<in> set xs \<Longrightarrow> f a = Some (k, v) \<Longrightarrow> map_of (rev (List.map_filter f xs)) k \<noteq> None"
proof -
  assume "a \<in> set xs" and "f a = Some (k, v)"
  then have "(k, v) \<in> set (List.map_filter f xs)"
    by (force simp: map_filter_def)
  then have "k \<in> fst ` set (rev (List.map_filter f xs))"
    by force
  then show ?thesis
    by (simp only: map_of_eq_None_iff not_not)
qed

lemma last_field_wins:
  assumes "k \<in> messageKeys" and "f p = Some (k, v)"
    and "\<forall>q\<in>set qs. \<forall>w. f q \<noteq> Some (k, w)"
  shows "map_of (fold (\<lambda>p. copyField (f p)) (ps @ p # qs) msg) k = Some v"
proof -
  have "map_of (rev (List.map_filter f (ps @ p # qs))) k = Some v"
    using assms(2,3) by (rule map_of_rev_last)
  with assms(1) show ?thesis
    by (simp only: map_of_fold_copyField if_True option.case)
qed

lemma fold_copyField_present:
  assumes "x \<in> set xs" and "f x = Some (k, v)" and "k \<in> messageKeys"
  shows "map_of (fold (\<lambda>p. copyField (f p)) xs []) k \<noteq> None"
  using map_of_rev_present [of x xs f k v, OF assms(1,2)] assms(3)
  by (simp add: map_of_fold_copyField split: option.splits)

lemma fold_copyField_valid:
  assumes "x \<in> set xs" and "f x = Some (''id'', i)"
    and "y \<in> set xs" and "f y = Some (''defaultMessage'', d)"
  shows "isValidMessage (fold (\<lambda>p. copyField (f p)) xs [])"
  using fold_copyField_present [of x xs f "''id''" i, OF assms(1,2)]
    fold_copyField_present [of y xs f "''defaultMessage''" d, OF assms(3,4)]
  by (simp add: isValidMessage_map_of messageKeys_def)

lemma skippedAttribute_no_field: "skippedAttribute a \<Longrightarrow> literalAttribute a = None"
  by (induction a rule: skippedAttribute.induct) simp_all

lemma fold_filter_id:
  "(\<And>x s. x \<in> set xs \<Longrightarrow> \<not> P x \<Longrightarrow> f x s = s) \<Longrightarrow> fold f (filter P xs) s = fold f xs s"
  by (induction xs arbitrary: s) simp_all

lemma defineMessagesOuter_eq: "defineMessagesOuter p messages = messages @ propertyDescriptors p"
  by (induction p messages rule: defineMessagesOuter.induct)
     (simp_all add: isValidMessage_map_of Let_def)

lemma extractMessagesForDefineMessages_eq:
  "extractMessagesForDefineMessages ps = concat (map propertyDescriptors ps)"
proof -
  have eq: "defineMessagesOuter = (\<lambda>p acc. acc @ propertyDescriptors p)"
    by (intro ext) (rule defineMessagesOuter_eq)
  show ?thesis
    unfolding extractMessagesForDefineMessages_def eq by (simp add: fold_append_concat)
qed

lemma elementMessage_attrs:
  "element = JsxOpeningElement tag targs attrs \<or> element = JsxSelfClosingElement tag targs attrs
     \<Longrightarrow> elementMessage element
         = (let msg = fold jsxAttribute attrs [] in if isValidMessage msg then Some msg else None)"
  by (auto simp: elementMessage_def)

lemma map_of_fold_jsxAttribute:
  "map_of (fold jsxAttribute attrs []) k =
     (if k \<in> messageKeys then map_of (rev (List.map_filter literalAttribute attrs)) k else None)"
proof -
  have eq: "jsxAttribute = (\<lambda>a. copyField (literalAttribute a))"
    by (intro ext) (simp add: jsxAttribute_field)
  show ?thesis
    unfolding eq by (simp add: map_of_fold_copyField split: option.splits)
qed

section \<open>Where the descriptors of the output come from\<close>

lemma declarationDescriptors_source:
  "m \<in> set (declarationDescriptors name ex d)
     \<Longrightarrow> \<exists>a. firstArgument d = Some a
           \<and> m \<in> set (concat (map (\<lambda>l. ex (properties l)) (objectLiterals a)))"
  unfolding declarationDescriptors_def
  by (cases "isMethodCall d name"; cases "firstArgument d") simp_all

lemma callDescriptors_source:
  assumes "m \<in> set (callDescriptors name ex sf)"
  shows "\<exists>l\<in>set (preorder sf). m \<in> set (ex (properties l))"
proof -
  from assms obtain d where d: "d \<in> set (varDecls sf)" "m \<in> set (declarationDescriptors name ex d)"
    by (auto simp: callDescriptors_def)
  have "\<exists>a. firstArgument d = Some a
      \<and> m \<in> set (concat (map (\<lambda>l. ex (properties l)) (objectLiterals a)))"
    using d(2) by (rule declarationDescriptors_source)
  then obtain a where "firstArgument d = Some a"
      and "m \<in> set (concat (map (\<lambda>l. ex (properties l)) (objectLiterals a)))"
    by blast
  then obtain l where a: "firstArgument d = Some a" "l \<in> set (objectLiterals a)"
      "m \<in> set (ex (properties l))"
    by auto
  have "l \<in> set (preorder a)" using a(2) by (rule objectLiterals_preorder)
  moreover have "a \<in> set (preorder d)" using a(1) by (rule firstArgument_preorder)
  moreover have "d \<in> set (preorder sf)" using d(1) by (rule varDecls_preorder)
  ultimately have "l \<in> set (preorder sf)"
    using preorder_trans by blast
  with a(3) show ?thesis by blast
qed

lemma markupDescriptors_source:
  assumes "m \<in> set (markupDescriptors sf tagName)"
  shows "\<exists>el\<in>set (preorder sf). jsxIdentifierTagName el = Some tagName \<and> elementMessage el = Some m"
  using assms by (auto simp: markupDescriptors_def map_filter_def)

lemma main_source:
  assumes "m \<in> set (main sf opts)"
  shows "(\<exists>el\<in>set (preorder sf). \<exists>tagName. jsxIdentifierTagName el = Some tagName \<and> elementMessage el = Some m)
       \<or> (\<exists>l\<in>set (preorder sf). m \<in> set (extractMessagesForDefineMessages (properties l)))
       \<or> (\<exists>l\<in>set (preorder sf). m \<in> set (extractMessagesForFormatMessage (properties l)))"
proof -
  from assms consider
      (jsx) tagName where "m \<in> set (markupDescriptors sf tagName)"
    | (dm) "m \<in> set (callDescriptors ''defineMessages'' extractMessagesForDefineMessages sf)"
    | (fm) "m \<in> set (callDescriptors ''formatMessage'' extractMessagesForFormatMessage sf)"
    by (auto simp: main_concat)
  then show ?thesis
  proof cases
    case jsx
    then show ?thesis using markupDescriptors_source by blast
  next
    case dm
    then show ?thesis using callDescriptors_source by blast
  next
    case fm
    then show ?thesis using callDescriptors_source by blast
  qed
qed

lemma literalTexts_mem:
  "e \<in> set (preorder sf) \<Longrightarrow> stringOrTemplateText e = Some t \<Longrightarrow> t \<in> set (literalTexts sf)"
  by (force simp: literalTexts_def map_filter_def)

lemma stringLiteralText_template:
  "stringLiteralText e = Some t \<Longrightarrow> stringOrTemplateText e = Some t"
  by (cases e) simp_all

lemma defineMessagesField_text:
  assumes "defineMessagesField p = Some (k, v)" and "p \<in> set (preorder sf)"
  shows "v \<in> set (literalTexts sf)"
proof -
  from assms(1) obtain nm ini where p: "p = PropertyAssignment nm ini"
      and v: "stringOrTemplateText ini = Some v"
    by (cases p) (auto split: option.splits)
  have "ini \<in> set (preorder sf)"
    using preorder_child [OF assms(2), of ini] by (simp add: p)
  then show ?thesis using v by (rule literalTexts_mem)
qed

lemma formatMessageField_text:
  assumes "formatMessageField p = Some (k, v)" and "p \<in> set (preorder sf)"
  shows "v \<in> set (literalTexts sf)"
proof -
  from assms(1) obtain nm ini where p: "p = PropertyAssignment nm ini"
      and v: "stringLiteralText ini = Some v"
    by (cases p) (auto split: option.splits)
  have "ini \<in> set (preorder sf)"
    using preorder_child [OF assms(2), of ini] by (simp add: p)
  then show ?thesis using v by (simp add: literalTexts_mem stringLiteralText_template)
qed

lemma literalAttribute_text:
  "literalAttribute a = Some (k, v) \<Longrightarrow> a \<in> set (preorder sf) \<Longrightarrow> v \<in> set (literalTexts sf)"
proof (induction a rule: literalAttribute.induct)
  case (1 key t)
  have "StringLiteral t \<in> set (preorder sf)"
    using preorder_child [OF 1(2), of "StringLiteral t"] by simp
  with 1(1) show ?case by (simp add: literalTexts_mem)
next
  case (2 key e)
  have "JsxExpression (Some e) \<in> set (preorder sf)"
    using preorder_child [OF 2(2), of "JsxExpression (Some e)"] by simp
  then have "e \<in> set (preorder sf)"
    using preorder_child [of "JsxExpression (Some e)" sf e] by simp
  with 2(1) show ?case by (auto simp: literalTexts_mem)
qed simp_all

lemma fold_copyField_wellFormed:
  assumes "\<And>p k v. p \<in> set ps \<Longrightarrow> f p = Some (k, v) \<Longrightarrow> v \<in> set (literalTexts sf)"
    and "isValidMessage (fold (\<lambda>p. copyField (f p)) ps [])"
  shows "wellFormed sf (fold (\<lambda>p. copyField (f p)) ps [])"
  using assms keys_fold_copyField [of f ps "[]"] values_fold_copyField [of f ps "[]"]
  unfolding wellFormed_def by auto

lemma elementMessage_wellFormed:
  assumes "elementMessage el = Some m" and "el \<in> set (preorder sf)"
  shows "wellFormed sf m"
proof -
  have eq: "jsxAttribute = (\<lambda>a. copyField (literalAttribute a))"
    by (intro ext) (simp add: jsxAttribute_field)
  from assms(1) have m: "m = fold jsxAttribute (attributesProperties el) []"
      and "isValidMessage m"
    by (auto simp: elementMessage_def Let_def split: if_splits)
  then show ?thesis
    unfolding m eq
    by (intro fold_copyField_wellFormed)
       (auto intro: literalAttribute_text attributesProperties_preorder [OF _ assms(2)])
qed

lemma formatMessage_wellFormed:
  assumes "m \<in> set (extractMessagesForFormatMessage (properties l))" and "l \<in> set (preorder sf)"
  shows "wellFormed sf m"
proof -
  have eq: "formatMessageProperty = (\<lambda>a. copyField (formatMessageField a))"
    by (intro ext) (simp add: formatMessageProperty_field)
  from assms(1) have m: "m = fold formatMessageProperty (properties l) []"
      and "isValidMessage m"
    by (auto simp: extractMessagesForFormatMessage_def Let_def split: if_splits)
  moreover have "p \<in> set (preorder sf)" if "p \<in> set (properties l)" for p
    using that properties_children [of l] preorder_child [OF assms(2), of p] by blast
  ultimately show ?thesis
    unfolding m eq
    by (intro fold_copyField_wellFormed) (auto intro: formatMessageField_text)
qed

lemma defineMessages_wellFormed:
  assumes "m \<in> set (extractMessagesForDefineMessages (properties l))" and "l \<in> set (preorder sf)"
  shows "wellFormed sf m"
proof -
  have eq: "defineMessagesInner = (\<lambda>a. copyField (defineMessagesField a))"
    by (intro ext) (simp add: defineMessagesInner_field)
  from assms(1) obtain p where p: "p \<in> set (properties l)" "m \<in> set (propertyDescriptors p)"
    by (auto simp: extractMessagesForDefineMessages_eq)
  then obtain nm ips where shape: "p = PropertyAssignment nm (ObjectLiteralExpression ips)"
      and m: "m = fold defineMessagesInner ips []" and valid: "isValidMessage m"
    by (cases p rule: propertyDescriptors.cases)
       (auto simp: isValidMessage_map_of split: if_splits)
  have "p \<in> set (preorder sf)"
    using p(1) properties_children [of l] preorder_child [OF assms(2), of p] by blast
  then have "ObjectLiteralExpression ips \<in> set (preorder sf)"
    using preorder_child [of p sf "ObjectLiteralExpression ips"] by (simp add: shape)
  then have "ip \<in> set (preorder sf)" if "ip \<in> set ips" for ip
    using that preorder_child [of "ObjectLiteralExpression ips" sf ip] by simp
  with valid show ?thesis
    unfolding m eq
    by (intro fold_copyField_wellFormed) (auto intro: defineMessagesField_text)
qed

lemma main_wellFormed: "m \<in> set (main sf opts) \<Longrightarrow> wellFormed sf m"
  using main_source [of m sf opts] elementMessage_wellFormed formatMessage_wellFormed
    defineMessages_wellFormed by blast

section \<open>The order of the output\<close>

text \<open>
  Claim C1. For every parsed source unit and every configuration, the output of
  \<open>main\<close> is the concatenation, in this order, of: the descriptors of the markup
  elements, for the tag name \<open>FormattedMessage\<close> first and then for each tag name
  of the configuration in the order given, the elements of one tag name in document
  order; then the descriptors of the \<open>defineMessages\<close> declarations in document
  order; then the descriptors of the \<open>formatMessage\<close> declarations in document
  order. The declarations and the object literals that are read are subsequences of
  the document order.
\<close>

theorem main_order:
  "main sourceFile opts =
     concat (map (markupDescriptors sourceFile) (''FormattedMessage'' # tagNames opts))
     @ callDescriptors ''defineMessages'' extractMessagesForDefineMessages sourceFile
     @ callDescriptors ''formatMessage'' extractMessagesForFormatMessage sourceFile
   \<and> subseq (varDecls sourceFile) (preorder sourceFile)
   \<and> subseq (objectLiterals a) (preorder a)"
  by (simp add: main_concat varDecls_subseq objectLiterals_subseq)

section \<open>The properties of a bulk map\<close>

text \<open>
  Claim C2. For a declaration that a \<open>defineMessages\<close> call of an object
  literal initialises, each property of the object literal whose value is an object
  literal gives exactly one descriptor when its partial descriptor has both \<open>id\<close>
  and \<open>defaultMessage\<close> and none otherwise (\<open>propertyDescriptors\<close>); the
  descriptors of the call are the concatenation of what the properties give, in
  their source order, so a property that is dropped changes nothing for its
  siblings.
\<close>

theorem defineMessages_properties:
  "findMethodCallsWithName
       (VariableDeclaration nm ty
          (Some (CallExpression (Identifier ''defineMessages'') targs
             (ObjectLiteralExpression ps # args))))
       ''defineMessages'' extractMessagesForDefineMessages
     = concat (map propertyDescriptors ps)
   \<and> extractMessagesForDefineMessages ps = concat (map propertyDescriptors ps)
   \<and> extractMessagesForDefineMessages (ps @ p # qs)
       = extractMessagesForDefineMessages ps @ propertyDescriptors p
         @ extractMessagesForDefineMessages qs
   \<and> length (propertyDescriptors p) \<le> 1"
proof -
  have "length (propertyDescriptors p) \<le> 1"
    by (cases p rule: propertyDescriptors.cases) simp_all
  then show ?thesis
    by (simp add: findMethodCallsWithName_eq callDescriptors_def declarationDescriptors_def
        varDecls.simps objectLiterals.simps extractMessagesForDefineMessages_eq)
qed

section \<open>Declarations inside declarations\<close>

text \<open>
  Claim C3. The claim says that a matching declaration is found at any depth, also
  inside the initializer of an enclosing variable declaration. \<open>forAllVarDecls\<close>
  does not go below a variable declaration: the declaration of
  \<open>topLevelDeclaration\<close> gives its descriptor, and the same declaration in the
  body of an arrow function that initialises a variable (\<open>nestedDeclaration\<close>)
  gives nothing.
\<close>

theorem nested_declaration_missed:
  "findMethodCallsWithName nestedDeclaration ''defineMessages'' extractMessagesForDefineMessages = []
   \<and> main nestedDeclaration defaultOptions = []
   \<and> main topLevelDeclaration defaultOptions = [[(''id'', ''x''), (''defaultMessage'', ''y'')]]"
  by code_simp

section \<open>The fields of a descriptor\<close>

text \<open>
  Claim C4, as stated: \<open>id\<close> and \<open>defaultMessage\<close> of an output descriptor are
  never the empty string. The element of \<open>emptyLiterals\<close> gives a descriptor with
  both fields empty: a field that is present is valid, whatever its value.
\<close>

theorem empty_literal_descriptor:
  "main emptyLiterals defaultOptions = [[(''id'', ''''), (''defaultMessage'', '''')]]"
  by code_simp

text \<open>
  Claim C4, amended. Every descriptor of the output has \<open>id\<close> and
  \<open>defaultMessage\<close>, and each of the two values is the text of a string literal or of
  a no-substitution template literal of the tree (the text may be empty).
\<close>

theorem descriptor_fields_from_literals:
  "\<forall>m\<in>set (main sourceFile opts). \<exists>i d.
      map_of m ''id'' = Some i \<and> map_of m ''defaultMessage'' = Some d
      \<and> i \<in> set (literalTexts sourceFile) \<and> d \<in> set (literalTexts sourceFile)"
proof
  fix m
  assume "m \<in> set (main sourceFile opts)"
  then have wf: "wellFormed sourceFile m" by (rule main_wellFormed)
  then obtain i d where id: "map_of m ''id'' = Some i" "map_of m ''defaultMessage'' = Some d"
    by (auto simp: wellFormed_def isValidMessage_map_of)
  then have "i \<in> snd ` set m" and "d \<in> snd ` set m"
    by (force dest: map_of_SomeD)+
  with wf id show "\<exists>i d. map_of m ''id'' = Some i \<and> map_of m ''defaultMessage'' = Some d
      \<and> i \<in> set (literalTexts sourceFile) \<and> d \<in> set (literalTexts sourceFile)"
    by (auto simp: wellFormed_def)
qed

theorem descriptor_fields_from_literals_witness:
  "main topLevelDeclaration defaultOptions = [[(''id'', ''x''), (''defaultMessage'', ''y'')]]
   \<and> (\<exists>i d. map_of [(''id'', ''x''), (''defaultMessage'', ''y'')] ''id'' = Some i
         \<and> map_of [(''id'', ''x''), (''defaultMessage'', ''y'')] ''defaultMessage'' = Some d
         \<and> i \<in> set (literalTexts topLevelDeclaration)
         \<and> d \<in> set (literalTexts topLevelDeclaration))"
proof -
  have eq: "main topLevelDeclaration defaultOptions = [[(''id'', ''x''), (''defaultMessage'', ''y'')]]"
    by code_simp
  with descriptor_fields_from_literals [of topLevelDeclaration defaultOptions]
  show ?thesis by simp
qed

section \<open>Attributes that are skipped\<close>

text \<open>
  Claim C5. In a markup element, a spread attribute, an attribute without a value
  and an attribute whose embedded expression is not a string literal or a
  no-substitution template literal leave the partial descriptor as it is. An element
  that also has a literal \<open>id\<close> attribute and a literal \<open>defaultMessage\<close>
  attribute gives exactly one descriptor, the one of its other attributes; the fields
  of this descriptor are the recognized names that have a literal value, each with
  its last literal value.
\<close>

theorem skipped_attributes:
  assumes "element = JsxOpeningElement tag targs attrs
           \<or> element = JsxSelfClosingElement tag targs attrs"
    and "a \<in> set attrs" and "literalAttribute a = Some (''id'', i)"
    and "b \<in> set attrs" and "literalAttribute b = Some (''defaultMessage'', d)"
  shows "(skippedAttribute s \<longrightarrow> jsxAttribute s msg = msg)
    \<and> getElementsMessages [element]
        = [fold jsxAttribute (filter (\<lambda>a. \<not> skippedAttribute a) attrs) []]
    \<and> (\<forall>m\<in>set (getElementsMessages [element]). \<forall>k. map_of m k =
         (if k \<in> messageKeys then map_of (rev (List.map_filter literalAttribute attrs)) k
          else None))"
proof -
  have skip: "jsxAttribute s msg = msg" if "skippedAttribute s" for s msg
    using that by (simp add: jsxAttribute_field skippedAttribute_no_field copyField_def)
  have filt: "fold jsxAttribute (filter (\<lambda>a. \<not> skippedAttribute a) attrs) []
                = fold jsxAttribute attrs []"
    by (rule fold_filter_id) (simp add: skip)
  have "map_of (fold jsxAttribute attrs []) ''id'' \<noteq> None"
    using map_of_rev_present [of a attrs literalAttribute, OF assms(2,3)]
    by (simp add: map_of_fold_jsxAttribute messageKeys_def)
  moreover have "map_of (fold jsxAttribute attrs []) ''defaultMessage'' \<noteq> None"
    using map_of_rev_present [of b attrs literalAttribute, OF assms(4,5)]
    by (simp add: map_of_fold_jsxAttribute messageKeys_def)
  ultimately have "isValidMessage (fold jsxAttribute attrs [])"
    by (simp add: isValidMessage_map_of)
  then have "getElementsMessages [element] = [fold jsxAttribute attrs []]"
    using assms(1)
    by (simp add: getElementsMessages_map_filter map_filter_simps elementMessage_attrs [OF assms(1)])
  then show ?thesis
    by (simp add: skip filt map_of_fold_jsxAttribute)
qed

theorem skipped_attributes_witness:
  "skippedAttribute (JsxSpreadAttribute (Identifier ''props''))
   \<and> skippedAttribute (JsxAttribute ''description'' (Some (JsxExpression (Some (Identifier ''d'')))))
   \<and> skippedAttribute (JsxAttribute ''values'' None)
   \<and> getElementsMessages [JsxSelfClosingElement (Identifier ''FormattedMessage'') [] mixedAttributes]
       = [[(''id'', ''a''), (''defaultMessage'', ''b'')]]"
proof -
  let ?id = "JsxAttribute ''id'' (Some (StringLiteral ''a''))"
  let ?dm = "JsxAttribute ''defaultMessage''
      (Some (JsxExpression (Some (NoSubstitutionTemplateLiteral ''b''))))"
  let ?el = "JsxSelfClosingElement (Identifier ''FormattedMessage'') [] mixedAttributes"
  have el: "?el = JsxOpeningElement (Identifier ''FormattedMessage'') [] mixedAttributes
      \<or> ?el = JsxSelfClosingElement (Identifier ''FormattedMessage'') [] mixedAttributes"
    by simp
  have a: "?id \<in> set mixedAttributes" "literalAttribute ?id = Some (''id'', ''a'')"
    by (simp_all add: mixedAttributes_def)
  have b: "?dm \<in> set mixedAttributes" "literalAttribute ?dm = Some (''defaultMessage'', ''b'')"
    by (simp_all add: mixedAttributes_def)
  have kept: "fold jsxAttribute (filter (\<lambda>a. \<not> skippedAttribute a) mixedAttributes) []
        = [(''id'', ''a''), (''defaultMessage'', ''b'')]"
    by code_simp
  from skipped_attributes [OF el a b]
  have "getElementsMessages [?el]
      = [fold jsxAttribute (filter (\<lambda>a. \<not> skippedAttribute a) mixedAttributes) []]"
    by blast
  with kept show ?thesis by simp
qed

section \<open>Calls that initialise no variable\<close>

text \<open>
  Claim C6, as stated: a call of \<open>formatMessage\<close> that is not the initializer of a
  variable declaration, a call passed as an argument to another call for one, gives
  no descriptor. In \<open>wrappedCall\<close> the inner call is an argument of \<open>wrap\<close>, and
  its object literal gives a descriptor: the inner call is inside the first argument
  of a call that initialises a variable, and the matcher reads every object literal
  of that argument.
\<close>

theorem nested_call_descriptor:
  "main wrappedCall defaultOptions = [[(''id'', ''a''), (''defaultMessage'', ''b'')]]"
  by code_simp

text \<open>
  Claim C6, amended. A call of \<open>formatMessage\<close> that is not the initializer of a
  variable declaration gives no descriptor, unless it is inside the first argument
  of a matched call that initialises a variable declaration the walk visits. For
  either matcher (\<open>methodName\<close> and its extractor):
  at a node that is not a variable declaration the matcher returns what it returns
  for the children of the node, one after the other, and nothing when no variable
  declaration is below the node;
  a variable declaration that is not initialised by a call of \<open>methodName\<close> gives
  nothing, whatever calls are inside it;
  a variable declaration that is initialised by such a call gives the descriptors of
  the object literals of the first argument that are not inside another object
  literal (also those that are arguments of a call inside the first argument), and
  nothing else;
  so every descriptor of the matcher comes from such an object literal.
  When no variable declaration of the tree is initialised by a call of
  \<open>formatMessage\<close>, the single-call matcher returns nothing and the output is that
  of the other two matchers.
\<close>

theorem call_outside_declaration:
  "(\<not> isVariableDeclaration n \<longrightarrow>
      findMethodCallsWithName n methodName ex
        = concat (map (\<lambda>c. findMethodCallsWithName c methodName ex) (children n)))
   \<and> (varDecls n = [] \<longrightarrow> findMethodCallsWithName n methodName ex = [])
   \<and> (isVariableDeclaration d \<and> \<not> isMethodCall d methodName \<longrightarrow>
        findMethodCallsWithName d methodName ex = [])
   \<and> (isMethodCall d methodName \<and> firstArgument d = None \<longrightarrow>
        findMethodCallsWithName d methodName ex = [])
   \<and> (isMethodCall d methodName \<and> firstArgument d = Some a \<longrightarrow>
        findMethodCallsWithName d methodName ex
          = concat (map (\<lambda>l. ex (properties l)) (objectLiterals a)))
   \<and> (\<forall>m\<in>set (findMethodCallsWithName sourceFile methodName ex).
        \<exists>d\<in>set (varDecls sourceFile). \<exists>a. \<exists>l\<in>set (objectLiterals a).
          isMethodCall d methodName \<and> firstArgument d = Some a \<and> m \<in> set (ex (properties l)))
   \<and> ((\<forall>d\<in>set (preorder sourceFile). \<not> isMethodCall d ''formatMessage'') \<longrightarrow>
      findMethodCallsWithName sourceFile ''formatMessage'' extractMessagesForFormatMessage = []
      \<and> main sourceFile opts =
          concat (map (markupDescriptors sourceFile) (''FormattedMessage'' # tagNames opts))
          @ callDescriptors ''defineMessages'' extractMessagesForDefineMessages sourceFile)"
proof -
  let ?F = "\<lambda>c. findMethodCallsWithName c methodName ex"
  have children: "?F n = concat (map ?F (children n))" if "\<not> isVariableDeclaration n"
    using that
    by (simp add: findMethodCallsWithName_eq callDescriptors_def varDecls.simps [of n]
        concat_map_concat comp_def)
  have none: "?F n = []" if "varDecls n = []"
    using that by (simp add: findMethodCallsWithName_eq callDescriptors_def)
  have other: "?F d = []" if "isVariableDeclaration d" "\<not> isMethodCall d methodName"
    using that by (simp add: findMethodCallsWithName_declaration declarationDescriptors_def)
  have noarg: "?F d = []" if "isMethodCall d methodName" "firstArgument d = None"
    using that isMethodCall_declaration [OF that(1)]
    by (simp add: findMethodCallsWithName_declaration declarationDescriptors_def)
  have first: "?F d = concat (map (\<lambda>l. ex (properties l)) (objectLiterals a))"
    if "isMethodCall d methodName" "firstArgument d = Some a"
    using that isMethodCall_declaration [OF that(1)]
    by (simp add: findMethodCallsWithName_declaration declarationDescriptors_def)
  have source: "\<exists>d\<in>set (varDecls sourceFile). \<exists>a. \<exists>l\<in>set (objectLiterals a).
      isMethodCall d methodName \<and> firstArgument d = Some a \<and> m \<in> set (ex (properties l))"
    if "m \<in> set (?F sourceFile)" for m
  proof -
    from that obtain d where d: "d \<in> set (varDecls sourceFile)"
        "m \<in> set (declarationDescriptors methodName ex d)"
      by (auto simp: findMethodCallsWithName_eq callDescriptors_def)
    have call: "isMethodCall d methodName"
      using d(2) by (cases "isMethodCall d methodName") (simp_all add: declarationDescriptors_def)
    from declarationDescriptors_source [OF d(2)] obtain a l where
      "firstArgument d = Some a" "l \<in> set (objectLiterals a)" "m \<in> set (ex (properties l))"
      by auto
    with d(1) call show ?thesis by blast
  qed
  have absent: "callDescriptors ''formatMessage'' extractMessagesForFormatMessage sourceFile = []"
    if "\<forall>d\<in>set (preorder sourceFile). \<not> isMethodCall d ''formatMessage''"
  proof -
    have "declarationDescriptors ''formatMessage'' extractMessagesForFormatMessage d = []"
      if "d \<in> set (varDecls sourceFile)" for d
      using \<open>\<forall>d\<in>set (preorder sourceFile). \<not> isMethodCall d ''formatMessage''\<close>
        varDecls_preorder [OF that]
      by (simp add: declarationDescriptors_def)
    then show ?thesis by (simp add: callDescriptors_def)
  qed
  show ?thesis
    using children none other noarg first source absent
    by (simp add: main_concat findMethodCallsWithName_eq)
qed

text \<open>
  In \<open>declarationAndCall\<close> the declaration gives its descriptor and the call in
  \<open>console.log\<close> gives none.
\<close>

theorem call_outside_declaration_witness:
  "\<not> isVariableDeclaration declarationAndCall
   \<and> varDecls loggedStatement = []
   \<and> findMethodCallsWithName loggedStatement ''formatMessage'' extractMessagesForFormatMessage = []
   \<and> findMethodCallsWithName declarationAndCall ''formatMessage'' extractMessagesForFormatMessage
       = [[(''id'', ''1''), (''defaultMessage'', ''one'')]]
   \<and> main declarationAndCall defaultOptions = [[(''id'', ''1''), (''defaultMessage'', ''one'')]]"
proof -
  let ?F = "\<lambda>c. findMethodCallsWithName c ''formatMessage'' extractMessagesForFormatMessage"
  have nd: "\<not> isVariableDeclaration declarationAndCall"
    by (simp add: declarationAndCall_def)
  have nv: "varDecls loggedStatement = []"
    by code_simp
  have kids: "children declarationAndCall = [oneDeclaration, loggedStatement, OtherNode []]"
    by (simp add: declarationAndCall_def)
  have one: "?F oneDeclaration = [[(''id'', ''1''), (''defaultMessage'', ''one'')]]"
    by code_simp
  have eof: "?F (OtherNode []) = []"
    by code_simp
  have whole: "main declarationAndCall defaultOptions = [[(''id'', ''1''), (''defaultMessage'', ''one'')]]"
    by code_simp
  from call_outside_declaration [where n = loggedStatement and methodName = "''formatMessage''"
      and ex = extractMessagesForFormatMessage] nv
  have logged: "?F loggedStatement = []"
    by blast
  from call_outside_declaration [where n = declarationAndCall and methodName = "''formatMessage''"
      and ex = extractMessagesForFormatMessage] nd
  have "?F declarationAndCall = concat (map ?F (children declarationAndCall))"
    by blast
  then have "?F declarationAndCall = [[(''id'', ''1''), (''defaultMessage'', ''one'')]]"
    by (simp only: kids list.map concat.simps one logged eof append_Nil2 append_Nil)
  with nd nv logged whole show ?thesis by blast
qed

section \<open>Keys that are not recognized\<close>

text \<open>
  Claim C7. In each of the three matchers a property or attribute whose key is not
  \<open>id\<close>, \<open>defaultMessage\<close> or \<open>description\<close> leaves the partial descriptor as
  it is, and the keys of every descriptor of the output are among these three.
\<close>

theorem unknown_keys_ignored:
  "(identifierOrLiteralText nm = Some key \<and> key \<notin> messageKeys \<longrightarrow>
      defineMessagesInner (PropertyAssignment nm ini) msg = msg
      \<and> formatMessageProperty (PropertyAssignment nm ini) msg = msg)
   \<and> (key \<notin> messageKeys \<longrightarrow> jsxAttribute (JsxAttribute key ini') msg = msg)
   \<and> (\<forall>m\<in>set (main sourceFile opts).
         fst ` set m \<subseteq> {''id'', ''defaultMessage'', ''description''})"
proof -
  have copy: "copyIfMessageKey msg key v = msg" if "key \<notin> messageKeys" for v
    using that by (simp add: copyIfMessageKey_def messageKeys_def)
  have "jsxAttribute (JsxAttribute key ini') msg = msg" if "key \<notin> messageKeys"
    using copy [OF that]
    by (cases "(JsxAttribute key ini', msg)" rule: jsxAttribute.cases)
       (auto split: option.splits)
  moreover have "fst ` set m \<subseteq> {''id'', ''defaultMessage'', ''description''}"
    if "m \<in> set (main sourceFile opts)" for m
    using main_wellFormed [OF that] by (auto simp: wellFormed_def messageKeys_def)
  ultimately show ?thesis
    using copy by (auto split: option.splits)
qed

text \<open>
  The attribute \<open>values\<close> of \<open>mixedAttributes\<close> is ignored, and the keys of the
  descriptor of \<open>topLevelDeclaration\<close> are recognized.
\<close>

theorem unknown_keys_ignored_witness:
  "jsxAttribute (JsxAttribute ''values'' (Some (StringLiteral ''v''))) [(''id'', ''a'')] = [(''id'', ''a'')]
   \<and> defineMessagesInner (PropertyAssignment (Identifier ''values'') (StringLiteral ''v'')) [(''id'', ''a'')]
       = [(''id'', ''a'')]
   \<and> main topLevelDeclaration defaultOptions = [[(''id'', ''x''), (''defaultMessage'', ''y'')]]
   \<and> fst ` set [(''id'', ''x''), (''defaultMessage'', ''y'')] \<subseteq> {''id'', ''defaultMessage'', ''description''}"
proof -
  have key: "identifierOrLiteralText (Identifier ''values'') = Some ''values''"
      "''values'' \<notin> messageKeys"
    by (simp_all add: messageKeys_def)
  have eq: "main topLevelDeclaration defaultOptions = [[(''id'', ''x''), (''defaultMessage'', ''y'')]]"
    by code_simp
  note inst = unknown_keys_ignored [of "Identifier ''values''" "''values''" "StringLiteral ''v''"
      "[(''id'', ''a'')]" "Some (StringLiteral ''v'')" topLevelDeclaration defaultOptions]
  from inst key
  have "defineMessagesInner (PropertyAssignment (Identifier ''values'') (StringLiteral ''v''))
      [(''id'', ''a'')] = [(''id'', ''a'')]"
    and "jsxAttribute (JsxAttribute ''values'' (Some (StringLiteral ''v''))) [(''id'', ''a'')]
      = [(''id'', ''a'')]"
    by blast+
  moreover from inst
  have "\<forall>m\<in>set (main topLevelDeclaration defaultOptions).
      fst ` set m \<subseteq> {''id'', ''defaultMessage'', ''description''}"
    by blast
  then have "fst ` set [(''id'', ''x''), (''defaultMessage'', ''y'')]
      \<subseteq> {''id'', ''defaultMessage'', ''description''}"
    by (simp add: eq)
  ultimately show ?thesis using eq by blast
qed

section \<open>Termination\<close>

text \<open>
  Claim C8, as stated: the tree of a malformed source gives the empty sequence. The
  tree of \<open>malformedDeclaration\<close>, where an expression is missing, gives the
  descriptor of the property that is complete.
\<close>

theorem malformed_source_descriptor:
  "main malformedDeclaration defaultOptions = [[(''id'', ''x''), (''defaultMessage'', ''y'')]]"
  by code_simp

text \<open>
  Claim C8, amended. For every tree and every configuration the recursion of the
  three walks is well founded (every argument is in the domain of the recursion, by
  the measure \<open>weight\<close>) and no callback of a walk returns a value that would stop
  \<^verbatim>\<open>ts.forEachChild\<close> early, so \<open>main\<close> is a list of descriptors that the tree
  determines. The empty tree gives the empty list, and so does every tree that has
  no variable declaration and no markup element with an identifier as its tag name;
  the tree of a malformed source gives the descriptors of the patterns it has. What
  the limits of a JavaScript engine (the depth of the call stack, the number of
  arguments of \<^verbatim>\<open>push(...)\<close>) do to a very large input is not part of the
  statement.
\<close>

theorem extract_terminates:
  "find_dom (extractMessages, n, res)
   \<and> forAllVarDecls_dom (n, cb :: node \<Rightarrow> 's \<Rightarrow> 's, s)
   \<and> findJsxElement_dom (tagName, n, acc)
   \<and> fst (find extractMessages n res) = None
   \<and> fst (findJsxElement tagName n acc) = None
   \<and> main (OtherNode []) opts = []
   \<and> ((\<forall>c\<in>set (preorder sourceFile). \<not> isVariableDeclaration c \<and> jsxIdentifierTagName c = None)
        \<longrightarrow> main sourceFile opts = [])"
proof -
  have "main (OtherNode []) opts = []"
    by (simp add: main_concat markupDescriptors_def callDescriptors_def preorder.simps
        varDecls.simps map_filter_simps)
  with find_total forAllVarDecls_total [where ?'s = 's] findJsxElement_total no_candidates
  show ?thesis
    by (simp add: find_eq findJsxElement_eq)
qed

theorem extract_terminates_witness:
  "main loggedCall defaultOptions = []"
proof -
  have "\<forall>c\<in>set (preorder loggedCall). \<not> isVariableDeclaration c \<and> jsxIdentifierTagName c = None"
    by code_simp
  with extract_terminates [where sourceFile = loggedCall and opts = defaultOptions
      and n = loggedCall and extractMessages = extractMessagesForFormatMessage and res = "[]"
      and cb = "methodCallMessages ''formatMessage'' extractMessagesForFormatMessage"
      and s = "[]" and tagName = "''FormattedMessage''" and acc = "[]"]
  show ?thesis by blast
qed

section \<open>Template literals\<close>

text \<open>
  Claim C9. In the single-call matcher a property whose value is a no-substitution
  template literal is skipped (the descriptors are those of the other properties),
  and a string literal is copied; the bulk-map matcher treats a no-substitution
  template literal as it treats the string literal of the same text (it copies it
  under a recognized name), and so does the markup-element matcher for an embedded
  expression.
\<close>

theorem template_literal_values:
  "formatMessageProperty (PropertyAssignment nm (NoSubstitutionTemplateLiteral t)) msg = msg
   \<and> extractMessagesForFormatMessage
         (ps @ PropertyAssignment nm (NoSubstitutionTemplateLiteral t) # qs)
       = extractMessagesForFormatMessage (ps @ qs)
   \<and> formatMessageProperty (PropertyAssignment (Identifier key) (StringLiteral t)) msg
       = copyIfMessageKey msg key t
   \<and> defineMessagesInner (PropertyAssignment nm (NoSubstitutionTemplateLiteral t)) msg
       = defineMessagesInner (PropertyAssignment nm (StringLiteral t)) msg
   \<and> defineMessagesInner (PropertyAssignment (Identifier key) (NoSubstitutionTemplateLiteral t)) msg
       = copyIfMessageKey msg key t
   \<and> extractMessagesForDefineMessages
         [PropertyAssignment outer (ObjectLiteralExpression
            (ps @ PropertyAssignment nm (NoSubstitutionTemplateLiteral t) # qs))]
       = extractMessagesForDefineMessages
         [PropertyAssignment outer (ObjectLiteralExpression
            (ps @ PropertyAssignment nm (StringLiteral t) # qs))]
   \<and> jsxAttribute (JsxAttribute key (Some (JsxExpression (Some (NoSubstitutionTemplateLiteral t))))) msg
       = copyIfMessageKey msg key t
   \<and> elementMessage (JsxSelfClosingElement tag targs
         (as @ JsxAttribute key (Some (JsxExpression (Some (NoSubstitutionTemplateLiteral t)))) # bs))
       = elementMessage (JsxSelfClosingElement tag targs
         (as @ JsxAttribute key (Some (StringLiteral t)) # bs))"
  by (simp add: extractMessagesForFormatMessage_def extractMessagesForDefineMessages_def
      elementMessage_def split: option.splits)

section \<open>Duplicate fields\<close>

text \<open>
  Claim C10. In each of the three matchers, when a recognized field name occurs
  with an accepted literal value and no later property or attribute gives this name
  an accepted value, the partial descriptor holds the value of this occurrence,
  whatever comes before it. When the candidate also has accepted values for \<open>id\<close>
  and \<open>defaultMessage\<close>, the matcher produces exactly one descriptor (the bulk-map
  extractor for the property, the single-call extractor, \<open>getElementsMessages\<close> for
  the element), and this descriptor holds the value of the last occurrence.
\<close>

theorem last_occurrence_wins:
  "(k \<in> messageKeys \<and> defineMessagesField p = Some (k, v)
      \<and> (\<forall>q\<in>set qs. \<forall>w. defineMessagesField q \<noteq> Some (k, w))
      \<longrightarrow> map_of (fold defineMessagesInner (ps @ p # qs) []) k = Some v)
   \<and> (k \<in> messageKeys \<and> formatMessageField p = Some (k, v)
      \<and> (\<forall>q\<in>set qs. \<forall>w. formatMessageField q \<noteq> Some (k, w))
      \<longrightarrow> map_of (fold formatMessageProperty (ps @ p # qs) []) k = Some v)
   \<and> (k \<in> messageKeys \<and> literalAttribute a = Some (k, v)
      \<and> (\<forall>b\<in>set bs. \<forall>w. literalAttribute b \<noteq> Some (k, w))
      \<longrightarrow> map_of (fold jsxAttribute (as @ a # bs) []) k = Some v)
   \<and> (k \<in> messageKeys \<and> defineMessagesField p = Some (k, v)
      \<and> (\<forall>q\<in>set qs. \<forall>w. defineMessagesField q \<noteq> Some (k, w))
      \<and> x \<in> set (ps @ p # qs) \<and> defineMessagesField x = Some (''id'', i)
      \<and> y \<in> set (ps @ p # qs) \<and> defineMessagesField y = Some (''defaultMessage'', d)
      \<longrightarrow> (\<exists>m. extractMessagesForDefineMessages
                  [PropertyAssignment outer (ObjectLiteralExpression (ps @ p # qs))] = [m]
               \<and> map_of m k = Some v))
   \<and> (k \<in> messageKeys \<and> formatMessageField p = Some (k, v)
      \<and> (\<forall>q\<in>set qs. \<forall>w. formatMessageField q \<noteq> Some (k, w))
      \<and> x \<in> set (ps @ p # qs) \<and> formatMessageField x = Some (''id'', i)
      \<and> y \<in> set (ps @ p # qs) \<and> formatMessageField y = Some (''defaultMessage'', d)
      \<longrightarrow> (\<exists>m. extractMessagesForFormatMessage (ps @ p # qs) = [m] \<and> map_of m k = Some v))
   \<and> (k \<in> messageKeys \<and> literalAttribute a = Some (k, v)
      \<and> (\<forall>b\<in>set bs. \<forall>w. literalAttribute b \<noteq> Some (k, w))
      \<and> x \<in> set (as @ a # bs) \<and> literalAttribute x = Some (''id'', i)
      \<and> y \<in> set (as @ a # bs) \<and> literalAttribute y = Some (''defaultMessage'', d)
      \<and> (element = JsxOpeningElement tag targs (as @ a # bs)
           \<or> element = JsxSelfClosingElement tag targs (as @ a # bs))
      \<longrightarrow> (\<exists>m. getElementsMessages [element] = [m] \<and> map_of m k = Some v))"
proof -
  have dm: "defineMessagesInner = (\<lambda>p. copyField (defineMessagesField p))"
    by (intro ext) (simp add: defineMessagesInner_field)
  have fm: "formatMessageProperty = (\<lambda>p. copyField (formatMessageField p))"
    by (intro ext) (simp add: formatMessageProperty_field)
  have jsx: "jsxAttribute = (\<lambda>p. copyField (literalAttribute p))"
    by (intro ext) (simp add: jsxAttribute_field)
  have partial: "map_of (fold (\<lambda>p. copyField (f p)) (xs @ z # zs) []) k = Some v"
    if "k \<in> messageKeys" "f z = Some (k, v)" "\<forall>q\<in>set zs. \<forall>w. f q \<noteq> Some (k, w)"
    for f :: "node \<Rightarrow> (string \<times> string) option" and xs z zs
    using that by (rule last_field_wins)
  have c1: "map_of (fold defineMessagesInner (ps @ p # qs) []) k = Some v"
    if "k \<in> messageKeys" "defineMessagesField p = Some (k, v)"
      "\<forall>q\<in>set qs. \<forall>w. defineMessagesField q \<noteq> Some (k, w)"
    unfolding dm using that by (rule partial)
  have c2: "map_of (fold formatMessageProperty (ps @ p # qs) []) k = Some v"
    if "k \<in> messageKeys" "formatMessageField p = Some (k, v)"
      "\<forall>q\<in>set qs. \<forall>w. formatMessageField q \<noteq> Some (k, w)"
    unfolding fm using that by (rule partial)
  have c3: "map_of (fold jsxAttribute (as @ a # bs) []) k = Some v"
    if "k \<in> messageKeys" "literalAttribute a = Some (k, v)"
      "\<forall>b\<in>set bs. \<forall>w. literalAttribute b \<noteq> Some (k, w)"
    unfolding jsx using that by (rule partial)
  have c4: "\<exists>m. extractMessagesForDefineMessages
        [PropertyAssignment outer (ObjectLiteralExpression (ps @ p # qs))] = [m]
      \<and> map_of m k = Some v"
    if "k \<in> messageKeys" "defineMessagesField p = Some (k, v)"
      "\<forall>q\<in>set qs. \<forall>w. defineMessagesField q \<noteq> Some (k, w)"
      "x \<in> set (ps @ p # qs)" "defineMessagesField x = Some (''id'', i)"
      "y \<in> set (ps @ p # qs)" "defineMessagesField y = Some (''defaultMessage'', d)"
  proof -
    have "isValidMessage (fold defineMessagesInner (ps @ p # qs) [])"
      unfolding dm using that(4-7) by (rule fold_copyField_valid)
    then have "extractMessagesForDefineMessages
        [PropertyAssignment outer (ObjectLiteralExpression (ps @ p # qs))]
        = [fold defineMessagesInner (ps @ p # qs) []]"
      by (simp add: extractMessagesForDefineMessages_def del: fold_append)
    with c1 [OF that(1-3)] show ?thesis by blast
  qed
  have c5: "\<exists>m. extractMessagesForFormatMessage (ps @ p # qs) = [m] \<and> map_of m k = Some v"
    if "k \<in> messageKeys" "formatMessageField p = Some (k, v)"
      "\<forall>q\<in>set qs. \<forall>w. formatMessageField q \<noteq> Some (k, w)"
      "x \<in> set (ps @ p # qs)" "formatMessageField x = Some (''id'', i)"
      "y \<in> set (ps @ p # qs)" "formatMessageField y = Some (''defaultMessage'', d)"
  proof -
    have "isValidMessage (fold formatMessageProperty (ps @ p # qs) [])"
      unfolding fm using that(4-7) by (rule fold_copyField_valid)
    then have "extractMessagesForFormatMessage (ps @ p # qs)
        = [fold formatMessageProperty (ps @ p # qs) []]"
      by (simp add: extractMessagesForFormatMessage_def del: fold_append)
    with c2 [OF that(1-3)] show ?thesis by blast
  qed
  have c6: "\<exists>m. getElementsMessages [element] = [m] \<and> map_of m k = Some v"
    if "k \<in> messageKeys" "literalAttribute a = Some (k, v)"
      "\<forall>b\<in>set bs. \<forall>w. literalAttribute b \<noteq> Some (k, w)"
      "x \<in> set (as @ a # bs)" "literalAttribute x = Some (''id'', i)"
      "y \<in> set (as @ a # bs)" "literalAttribute y = Some (''defaultMessage'', d)"
      "element = JsxOpeningElement tag targs (as @ a # bs)
         \<or> element = JsxSelfClosingElement tag targs (as @ a # bs)"
  proof -
    have "isValidMessage (fold jsxAttribute (as @ a # bs) [])"
      unfolding jsx using that(4-7) by (rule fold_copyField_valid)
    then have "getElementsMessages [element] = [fold jsxAttribute (as @ a # bs) []]"
      by (simp add: getElementsMessages_map_filter map_filter_simps
          elementMessage_attrs [OF that(8)] del: fold_append)
    with c3 [OF that(1-3)] show ?thesis by blast
  qed
  show ?thesis
    by (intro conjI impI; elim conjE) (rule c1 c2 c3 c4 c5 c6; assumption)+
qed

theorem last_occurrence_wins_witness:
  "(\<exists>m. extractMessagesForDefineMessages
           [PropertyAssignment (Identifier ''a'') (ObjectLiteralExpression duplicateProperties)] = [m]
        \<and> map_of m ''id'' = Some ''second'')
   \<and> (\<exists>m. extractMessagesForFormatMessage duplicateProperties = [m]
        \<and> map_of m ''id'' = Some ''second'')
   \<and> (\<exists>m. getElementsMessages
           [JsxSelfClosingElement (Identifier ''FormattedMessage'') [] duplicateAttributes] = [m]
        \<and> map_of m ''id'' = Some ''second'')
   \<and> map_of (fold defineMessagesInner duplicateProperties []) ''id'' = Some ''second''
   \<and> map_of (fold formatMessageProperty duplicateProperties []) ''id'' = Some ''second''
   \<and> map_of (fold jsxAttribute duplicateAttributes []) ''id'' = Some ''second''
   \<and> extractMessagesForFormatMessage duplicateProperties
        = [[(''id'', ''second''), (''defaultMessage'', ''d'')]]
   \<and> getElementsMessages
        [JsxSelfClosingElement (Identifier ''FormattedMessage'') [] duplicateAttributes]
        = [[(''id'', ''second''), (''defaultMessage'', ''d'')]]"
proof -
  let ?p = "PropertyAssignment (Identifier ''id'') (StringLiteral ''second'')"
  let ?y = "PropertyAssignment (Identifier ''defaultMessage'') (StringLiteral ''d'')"
  let ?qs = "[?y]"
  let ?ps = "[PropertyAssignment (Identifier ''id'') (StringLiteral ''first'')]"
  let ?a = "JsxAttribute ''id'' (Some (JsxExpression (Some (StringLiteral ''second''))))"
  let ?b = "JsxAttribute ''defaultMessage'' (Some (StringLiteral ''d''))"
  let ?bs = "[?b]"
  let ?as = "[JsxAttribute ''id'' (Some (StringLiteral ''first''))]"
  let ?el = "JsxSelfClosingElement (Identifier ''FormattedMessage'') [] (?as @ ?a # ?bs)"
  have key: "''id'' \<in> messageKeys"
    by (simp add: messageKeys_def)
  have dm: "defineMessagesField ?p = Some (''id'', ''second'')"
      "\<forall>q\<in>set ?qs. \<forall>w. defineMessagesField q \<noteq> Some (''id'', w)"
      "?p \<in> set (?ps @ ?p # ?qs)" "?y \<in> set (?ps @ ?p # ?qs)"
      "defineMessagesField ?y = Some (''defaultMessage'', ''d'')"
    by simp_all
  have fm: "formatMessageField ?p = Some (''id'', ''second'')"
      "\<forall>q\<in>set ?qs. \<forall>w. formatMessageField q \<noteq> Some (''id'', w)"
      "formatMessageField ?y = Some (''defaultMessage'', ''d'')"
    by simp_all
  have jsx: "literalAttribute ?a = Some (''id'', ''second'')"
      "\<forall>b\<in>set ?bs. \<forall>w. literalAttribute b \<noteq> Some (''id'', w)"
      "?a \<in> set (?as @ ?a # ?bs)" "?b \<in> set (?as @ ?a # ?bs)"
      "literalAttribute ?b = Some (''defaultMessage'', ''d'')"
      "?el = JsxOpeningElement (Identifier ''FormattedMessage'') [] (?as @ ?a # ?bs)
         \<or> ?el = JsxSelfClosingElement (Identifier ''FormattedMessage'') [] (?as @ ?a # ?bs)"
    by simp_all
  have props: "duplicateProperties = ?ps @ ?p # ?qs" and attrs: "duplicateAttributes = ?as @ ?a # ?bs"
    by (simp_all add: duplicateProperties_def duplicateAttributes_def)
  have whole: "extractMessagesForFormatMessage duplicateProperties
        = [[(''id'', ''second''), (''defaultMessage'', ''d'')]]"
      "getElementsMessages
        [JsxSelfClosingElement (Identifier ''FormattedMessage'') [] duplicateAttributes]
        = [[(''id'', ''second''), (''defaultMessage'', ''d'')]]"
    by code_simp+
  note props_inst = last_occurrence_wins [where k = "''id''" and p = ?p and v = "''second''"
      and qs = ?qs and ps = ?ps and x = ?p and i = "''second''" and y = ?y and d = "''d''"
      and outer = "Identifier ''a''"]
  note attrs_inst = last_occurrence_wins [where k = "''id''" and a = ?a and v = "''second''"
      and bs = ?bs and as = ?as and x = ?a and i = "''second''" and y = ?b and d = "''d''"
      and element = ?el and tag = "Identifier ''FormattedMessage''" and targs = "[]"]
  from props_inst key dm
  have "\<exists>m. extractMessagesForDefineMessages
           [PropertyAssignment (Identifier ''a'') (ObjectLiteralExpression (?ps @ ?p # ?qs))] = [m]
        \<and> map_of m ''id'' = Some ''second''"
    by blast
  moreover from props_inst key fm dm(3,4)
  have "\<exists>m. extractMessagesForFormatMessage (?ps @ ?p # ?qs) = [m]
        \<and> map_of m ''id'' = Some ''second''"
    by blast
  moreover from attrs_inst key jsx
  have "\<exists>m. getElementsMessages [?el] = [m] \<and> map_of m ''id'' = Some ''second''"
    by blast
  moreover from props_inst key dm(1,2)
  have "map_of (fold defineMessagesInner (?ps @ ?p # ?qs) []) ''id'' = Some ''second''"
    by blast
  moreover from props_inst key fm(1,2)
  have "map_of (fold formatMessageProperty (?ps @ ?p # ?qs) []) ''id'' = Some ''second''"
    by blast
  moreover from attrs_inst key jsx(1,2)
  have "map_of (fold jsxAttribute (?as @ ?a # ?bs) []) ''id'' = Some ''second''"
    by blast
  ultimately show ?thesis
    using whole by (simp only: props attrs)
qed

end
